theory Spec2Isabelle
  imports Complex_Main "HOL-Library.Sublist"
begin

section \<open>Python strings\<close>

definition lower_char :: "char \<Rightarrow> char" where
  "lower_char c =
     (case map_of (zip ''ABCDEFGHIJKLMNOPQRSTUVWXYZ'' ''abcdefghijklmnopqrstuvwxyz'') c of
        None \<Rightarrow> c
      | Some l \<Rightarrow> l)"

definition lower :: "string \<Rightarrow> string" where
  "lower s = map lower_char s"

fun contains :: "string \<Rightarrow> string \<Rightarrow> bool" where
  "contains k [] = (k = [])"
| "contains k (c # cs) = (prefix k (c # cs) \<or> contains k cs)"

datatype pykey = IntKey int | StrKey string

datatype error =
    UnboundLocalError string
  | ValueError string
  | KeyError pykey
  | TransportError
  | ParseError

definition matching :: "(string \<times> string) list \<Rightarrow> string \<Rightarrow> (string \<times> string) list" where
  "matching dic s = filter (\<lambda>kv. contains (fst kv) s) dic"

definition osci_dic :: "(string \<times> string) list" where
  "osci_dic =
     [(''mean'', ''MEAN''), (''min'', ''MINI''), (''max'', ''MAXI''), (''freq'', ''FREQ''),
      (''per'', ''PER''), (''rms'', ''RMS''), (''pk2'', ''PK2''), (''amp'', ''PK2''),
      (''ph'', ''PHA''), (''crms'', ''CRM''), (''cmean'', ''CMEAN''), (''rise'', ''RIS''),
      (''fall'', ''FALL''), (''low'', ''LOW''), (''high'', ''HIGH'')]"

fun scan_keys :: "(string \<times> string) list \<Rightarrow> string \<Rightarrow> string option \<Rightarrow> string option" where
  "scan_keys [] m aux = aux"
| "scan_keys ((key, v) # items) m aux =
     scan_keys items m (if contains key m then Some v else aux)"

definition dic_get :: "(string \<times> string) list \<Rightarrow> string \<Rightarrow> error + string" where
  "dic_get dic k = (case map_of dic k of None \<Rightarrow> Inl (KeyError (StrKey k)) | Some v \<Rightarrow> Inr v)"

definition normalize_mtype :: "string \<Rightarrow> (error + string) \<times> string list" where
  "normalize_mtype mtype =
     (if contains ''c'' (lower mtype) then
        (if contains ''rms'' (lower mtype) then (dic_get osci_dic ''crms'', [])
         else (dic_get osci_dic ''cmean'', []))
      else
        (case scan_keys osci_dic (lower mtype) None of
           None \<Rightarrow> (Inl (UnboundLocalError ''aux''), [])
         | Some aux \<Rightarrow>
             if aux \<notin> set (map snd osci_dic)
             then (Inr ''FREQ'', [''Unrecognized measure type ('FREQ' as default).''])
             else (Inr aux, [])))"

definition gen_dic :: "(string \<times> string) list" where
  "gen_dic =
     [(''sin'', ''SIN''), (''squ'', ''PULS''), (''pul'', ''PULS''), (''tri'', ''RAMP''),
      (''ram'', ''RAMP''), (''lor'', ''LOR''), (''sinc'', ''SINC''), (''gau'', ''GAUS'')]"

fun scan_waveform :: "(string \<times> string) list \<Rightarrow> string \<Rightarrow> string" where
  "scan_waveform [] waveform = waveform"
| "scan_waveform ((key, v) # items) waveform =
     scan_waveform items (if contains key waveform then v else waveform)"

definition normalize_waveform :: "string \<Rightarrow> string \<times> string list" where
  "normalize_waveform raw =
     (let waveform = lower raw in
      if contains ''c'' waveform then (''SINC'', [])
      else
        (let waveform = scan_waveform gen_dic waveform in
         if waveform \<notin> set (map snd gen_dic)
         then (''SIN'', [''Unrecognized Waveform ('SIN' as default).''])
         else (waveform, [])))"


section \<open>Python values and formatting\<close>

datatype pyval = PBool bool | PNum rat | PStr string

record py =
  str_num :: "rat \<Rightarrow> string"
  str_num_1f :: "rat \<Rightarrow> string"
  find_1st_number :: "string \<Rightarrow> rat option"
  py_int :: "string \<Rightarrow> int option"

definition digit_char :: "nat \<Rightarrow> char" where
  "digit_char n = ''0123456789'' ! n"

fun str_nat :: "nat \<Rightarrow> string" where
  "str_nat n = (if n < 10 then [digit_char n] else str_nat (n div 10) @ [digit_char (n mod 10)])"

declare str_nat.simps [simp del]

definition str_int :: "int \<Rightarrow> string" where
  "str_int i = (if i < 0 then CHR ''-'' # str_nat (nat (- i)) else str_nat (nat i))"

fun str_val :: "py \<Rightarrow> pyval \<Rightarrow> string" where
  "str_val P (PBool b) = (if b then ''True'' else ''False'')"
| "str_val P (PNum x) = str_num P x"
| "str_val P (PStr s) = s"

section \<open>The instrument connection\<close>

record 'd visa =
  vwrite :: "string \<Rightarrow> 'd \<Rightarrow> 'd option"
  vquery :: "string \<Rightarrow> 'd \<Rightarrow> (string \<times> 'd) option"

record 'd io =
  dev :: 'd
  sent :: "string list"
  asked :: "string list"
  out :: "string list"

definition visa_write ::
  "'d visa \<Rightarrow> string \<Rightarrow> ('d, 'z) io_scheme \<Rightarrow> (error + unit) \<times> ('d, 'z) io_scheme" where
  "visa_write T c s =
     (case vwrite T c (dev s) of
        None \<Rightarrow> (Inl TransportError, s\<lparr>sent := sent s @ [c]\<rparr>)
      | Some d \<Rightarrow> (Inr (), s\<lparr>dev := d, sent := sent s @ [c]\<rparr>))"

definition visa_query ::
  "'d visa \<Rightarrow> string \<Rightarrow> ('d, 'z) io_scheme \<Rightarrow> (error + string) \<times> ('d, 'z) io_scheme" where
  "visa_query T q s =
     (case vquery T q (dev s) of
        None \<Rightarrow> (Inl TransportError, s\<lparr>asked := asked s @ [q]\<rparr>)
      | Some (r, d) \<Rightarrow> (Inr r, s\<lparr>dev := d, asked := asked s @ [q]\<rparr>))"

definition py_print :: "string \<Rightarrow> ('d, 'z) io_scheme \<Rightarrow> ('d, 'z) io_scheme" where
  "py_print line s = s\<lparr>out := out s @ [line]\<rparr>"

definition and_then ::
  "('s \<Rightarrow> (error + 'a) \<times> 's) \<Rightarrow> ('a \<Rightarrow> 's \<Rightarrow> (error + 'b) \<times> 's) \<Rightarrow> 's \<Rightarrow> (error + 'b) \<times> 's" where
  "and_then m k s = (case m s of (Inl e, s') \<Rightarrow> (Inl e, s') | (Inr x, s') \<Rightarrow> k x s')"

definition return :: "'a \<Rightarrow> 's \<Rightarrow> (error + 'a) \<times> 's" where
  "return x s = (Inr x, s)"

definition raise :: "error \<Rightarrow> 's \<Rightarrow> (error + 'a) \<times> 's" where
  "raise e s = (Inl e, s)"

section \<open>The function generator\<close>

type_synonym chan_state = "string \<rightharpoonup> pyval"

record config =
  chans :: "int \<rightharpoonup> chan_state"
  top :: "string \<rightharpoonup> pyval"

record 'd gen = "'d io" +
  nchannels :: int
  config_output :: config

record output_args =
  waveform :: "string option"
  frequency :: "rat option"
  amplitude :: "rat option"
  offset :: "rat option"
  phase :: "rat option"
  duty_cycle :: "rat option"
  symmetry :: "rat option"
  print_changes :: bool

definition default_args :: output_args where
  "default_args =
     \<lparr>waveform = Some ''sin'', frequency = Some 1000, amplitude = Some 1, offset = Some 0,
      phase = Some 0, duty_cycle = Some 50, symmetry = Some 50, print_changes = False\<rparr>"

definition cache_put :: "int \<Rightarrow> string \<Rightarrow> pyval \<Rightarrow> config \<Rightarrow> config" where
  "cache_put channel k v c =
     (case chans c channel of
        None \<Rightarrow> c
      | Some cs \<Rightarrow> c\<lparr>chans := (chans c)(channel \<mapsto> cs(k \<mapsto> v))\<rparr>)"

definition cache_get :: "int \<Rightarrow> string \<Rightarrow> config \<Rightarrow> error + pyval" where
  "cache_get channel k c =
     (case chans c channel of
        None \<Rightarrow> Inl (KeyError (IntKey channel))
      | Some cs \<Rightarrow> (case cs k of None \<Rightarrow> Inl (KeyError (StrKey k)) | Some v \<Rightarrow> Inr v))"

definition quoted :: "string \<Rightarrow> string" where
  "quoted s = CHR 0x27 # s @ [CHR 0x27]"

definition changed_msg :: "int \<Rightarrow> string \<Rightarrow> string \<Rightarrow> string" where
  "changed_msg channel name rest =
     ''CH'' @ str_int channel @ CHR 0x27 # ''s '' @ name @ '' changed to '' @ rest"

definition cached :: "'d gen \<Rightarrow> int \<Rightarrow> string \<Rightarrow> pyval option" where
  "cached s channel k =
     (case chans (config_output s) channel of None \<Rightarrow> None | Some cs \<Rightarrow> cs k)"

datatype step =
  Step (step_guard: "error option") (step_key: string) (step_value: pyval)
       (step_cmd: string) (step_msg: string)

definition run_step ::
  "'d visa \<Rightarrow> bool \<Rightarrow> int \<Rightarrow> step \<Rightarrow> 'd gen \<Rightarrow> (error + unit) \<times> 'd gen" where
  "run_step T pc channel st s =
     (case step_guard st of
        Some e \<Rightarrow> (Inl e, s)
      | None \<Rightarrow>
          (case cache_get channel (step_key st) (config_output s) of
             Inl e \<Rightarrow> (Inl e, s)
           | Inr old \<Rightarrow>
               if old \<noteq> step_value st then
                 (case visa_write T (step_cmd st) s of
                    (Inl e, s') \<Rightarrow> (Inl e, s')
                  | (Inr u, s') \<Rightarrow>
                      (Inr (),
                       (if pc then py_print (step_msg st) else id)
                         (s'\<lparr>config_output :=
                               cache_put channel (step_key st) (step_value st) (config_output s')\<rparr>)))
               else (Inr (), s)))"

definition waveform_step :: "py \<Rightarrow> int \<Rightarrow> pyval \<Rightarrow> step" where
  "waveform_step P channel w =
     Step None ''Waveform'' w
       (''SOUR'' @ str_int channel @ '':FUNC:SHAP '' @ str_val P w)
       (changed_msg channel ''Waveform'' (quoted (str_val P w)))"

definition frequency_step :: "py \<Rightarrow> int \<Rightarrow> rat \<Rightarrow> step" where
  "frequency_step P channel x =
     Step None ''Frequency'' (PNum x)
       (''SOUR'' @ str_int channel @ '':FREQ '' @ str_num P x)
       (changed_msg channel ''Frequency'' (str_num P x @ '' Hz''))"

definition amplitude_step :: "py \<Rightarrow> int \<Rightarrow> rat \<Rightarrow> step" where
  "amplitude_step P channel x =
     Step None ''Amplitude'' (PNum x)
       (''SOUR'' @ str_int channel @ '':VOLT:LEV:IMM:AMPL '' @ str_num P x)
       (changed_msg channel ''Amplitude'' (str_num P x @ '' V''))"

definition offset_step :: "py \<Rightarrow> int \<Rightarrow> rat \<Rightarrow> step" where
  "offset_step P channel x =
     Step None ''Offset'' (PNum x)
       (''SOUR'' @ str_int channel @ '':VOLT:LEV:IMM:OFFS '' @ str_num P x)
       (changed_msg channel ''Offset'' (str_num P x @ '' V''))"

definition phase_step :: "py \<Rightarrow> int \<Rightarrow> rat \<Rightarrow> step" where
  "phase_step P channel x =
     Step None ''Phase'' (PNum x)
       (''SOUR'' @ str_int channel @ '':PHAS '' @ str_num P x)
       (changed_msg channel ''Phase'' (str_num P x @ '' PI''))"

definition duty_cycle_error :: error where
  "duty_cycle_error = ValueError (''Can only set duty cycle on '' @ quoted ''PULS'')"

definition symmetry_error :: error where
  "symmetry_error = ValueError (''Can only set symmetry on '' @ quoted ''RAMP'')"

definition duty_cycle_step :: "py \<Rightarrow> int \<Rightarrow> pyval \<Rightarrow> rat \<Rightarrow> step" where
  "duty_cycle_step P channel w x =
     Step (if w \<noteq> PStr ''PULS'' then Some duty_cycle_error else None)
       ''Duty Cycle'' (PNum x)
       (''SOUR'' @ str_int channel @ '':PULS:DCYC '' @ str_num_1f P x)
       (changed_msg channel ''Duty Cycle'' (replicate 26 CHR '' '' @ str_num P x @ ''%''))"

definition symmetry_step :: "py \<Rightarrow> int \<Rightarrow> pyval \<Rightarrow> rat \<Rightarrow> step" where
  "symmetry_step P channel w x =
     Step (if w \<noteq> PStr ''RAMP'' then Some symmetry_error else None)
       ''Symmetry'' (PNum x)
       (''SOUR'' @ str_int channel @ '':FUNC:RAMP:SYMM '' @ str_num_1f P x)
       (changed_msg channel ''Symmetry'' (replicate 26 CHR '' '' @ str_num P x @ ''%''))"

definition when_given ::
  "'a option \<Rightarrow> ('a \<Rightarrow> 's \<Rightarrow> (error + unit) \<times> 's) \<Rightarrow> 's \<Rightarrow> (error + unit) \<times> 's" where
  "when_given arg body = (case arg of None \<Rightarrow> return () | Some x \<Rightarrow> body x)"

definition resolve_waveform :: "output_args \<Rightarrow> int \<Rightarrow> 'd gen \<Rightarrow> (error + pyval) \<times> 'd gen" where
  "resolve_waveform a channel s =
     (case waveform a of
        Some raw \<Rightarrow>
          (Inr (PStr (fst (normalize_waveform raw))),
           s\<lparr>out := out s @ snd (normalize_waveform raw)\<rparr>)
      | None \<Rightarrow>
          (case cache_get channel ''Waveform'' (config_output s) of
             Inl e \<Rightarrow> (Inl e, s)
           | Inr w \<Rightarrow> (Inr w, s)))"

definition coerce_channel :: "int \<Rightarrow> 'd gen \<Rightarrow> int" where
  "coerce_channel channel s = (if channel \<notin> {1..nchannels s} then 1 else channel)"

definition gen_channel_warning :: string where
  "gen_channel_warning = ''Unrecognized output channel ('' @ quoted ''CH1'' @ '' as default).''"

definition warn_channel :: "int \<Rightarrow> 'd gen \<Rightarrow> 'd gen" where
  "warn_channel channel s =
     (if channel \<notin> {1..nchannels s} then py_print gen_channel_warning s else s)"

definition re_config_output ::
  "py \<Rightarrow> 'd visa \<Rightarrow> int \<Rightarrow> output_args \<Rightarrow> 'd gen \<Rightarrow> (error + unit) \<times> 'd gen" where
  "re_config_output P T channel a s =
     (let ch = coerce_channel channel s; pc = print_changes a
      in and_then (resolve_waveform a ch) (\<lambda>w.
         and_then (run_step T pc ch (waveform_step P ch w)) (\<lambda>_.
         and_then (when_given (frequency a) (\<lambda>x. run_step T pc ch (frequency_step P ch x))) (\<lambda>_.
         and_then (when_given (amplitude a) (\<lambda>x. run_step T pc ch (amplitude_step P ch x))) (\<lambda>_.
         and_then (when_given (offset a) (\<lambda>x. run_step T pc ch (offset_step P ch x))) (\<lambda>_.
         and_then (when_given (phase a) (\<lambda>x. run_step T pc ch (phase_step P ch x))) (\<lambda>_.
         and_then (when_given (duty_cycle a) (\<lambda>x. run_step T pc ch (duty_cycle_step P ch w x))) (\<lambda>_.
         when_given (symmetry a) (\<lambda>x. run_step T pc ch (symmetry_step P ch w x)))))))))
        (warn_channel channel s))"

fun run_steps :: "'d visa \<Rightarrow> bool \<Rightarrow> int \<Rightarrow> step list \<Rightarrow> 'd gen \<Rightarrow> (error + unit) \<times> 'd gen" where
  "run_steps T pc channel [] s = (Inr (), s)"
| "run_steps T pc channel (st # sts) s =
     (case run_step T pc channel st s of
        (Inl e, s') \<Rightarrow> (Inl e, s')
      | (Inr u, s') \<Rightarrow> run_steps T pc channel sts s')"

definition given :: "'a option \<Rightarrow> ('a \<Rightarrow> step) \<Rightarrow> step list" where
  "given arg f = (case arg of None \<Rightarrow> [] | Some x \<Rightarrow> [f x])"

definition gen_plan :: "py \<Rightarrow> int \<Rightarrow> pyval \<Rightarrow> output_args \<Rightarrow> step list" where
  "gen_plan P ch w a =
     waveform_step P ch w
     # given (frequency a) (frequency_step P ch)
     @ given (amplitude a) (amplitude_step P ch)
     @ given (offset a) (offset_step P ch)
     @ given (phase a) (phase_step P ch)
     @ given (duty_cycle a) (duty_cycle_step P ch w)
     @ given (symmetry a) (symmetry_step P ch w)"

definition changed :: "'d gen \<Rightarrow> int \<Rightarrow> step list \<Rightarrow> step list" where
  "changed s channel sts =
     filter (\<lambda>st. cached s channel (step_key st) \<noteq> Some (step_value st)) sts"


definition parse_number :: "py \<Rightarrow> string \<Rightarrow> 's \<Rightarrow> (error + rat) \<times> 's" where
  "parse_number P r = (case find_1st_number P r of None \<Rightarrow> raise ParseError | Some x \<Rightarrow> return x)"

definition parse_int :: "py \<Rightarrow> string \<Rightarrow> 's \<Rightarrow> (error + int) \<times> 's" where
  "parse_int P r = (case py_int P r of None \<Rightarrow> raise ParseError | Some i \<Rightarrow> return i)"

definition set_entry :: "int \<Rightarrow> string \<Rightarrow> pyval \<Rightarrow> config \<Rightarrow> 's \<Rightarrow> (error + config) \<times> 's" where
  "set_entry channel k v c =
     (case chans c channel of
        None \<Rightarrow> raise (KeyError (IntKey channel))
      | Some cs \<Rightarrow> return (c\<lparr>chans := (chans c)(channel \<mapsto> cs(k \<mapsto> v))\<rparr>))"

definition query_duty_cycle ::
  "py \<Rightarrow> 'd visa \<Rightarrow> int \<Rightarrow> config \<Rightarrow> ('d, 'z) io_scheme \<Rightarrow> (error + config) \<times> ('d, 'z) io_scheme" where
  "query_duty_cycle P T channel c s =
     (case and_then (visa_query T (''SOUR'' @ str_int channel @ '':PULS:DCYC?'')) (parse_number P) s of
        (Inr x, s') \<Rightarrow> (Inr (c\<lparr>top := (top c)(''Duty Cycle'' \<mapsto> PNum x)\<rparr>), s')
      | (Inl e, s') \<Rightarrow> set_entry channel ''Duty Cycle'' (PNum 50) c s')"

definition query_symmetry ::
  "py \<Rightarrow> 'd visa \<Rightarrow> int \<Rightarrow> config \<Rightarrow> ('d, 'z) io_scheme \<Rightarrow> (error + config) \<times> ('d, 'z) io_scheme" where
  "query_symmetry P T channel c s =
     (case and_then (visa_query T (''SOUR'' @ str_int channel @ '':FUNC:RAMP:SYMM?'')) (\<lambda>r.
           and_then (parse_number P r) (\<lambda>x. set_entry channel ''Symmetry'' (PNum x) c)) s of
        (Inr c', s') \<Rightarrow> (Inr c', s')
      | (Inl e, s') \<Rightarrow> set_entry channel ''Symmetry'' (PNum 50) c s')"

definition query_channel ::
  "py \<Rightarrow> 'd visa \<Rightarrow> int \<Rightarrow> config \<Rightarrow> ('d, 'z) io_scheme \<Rightarrow> (error + config) \<times> ('d, 'z) io_scheme" where
  "query_channel P T channel c0 =
     and_then (visa_query T (''OUTP'' @ str_int channel @ '':STAT?'')) (\<lambda>r.
     and_then (parse_int P r) (\<lambda>i.
     and_then (set_entry channel ''Status'' (PBool (i \<noteq> 0)) c0) (\<lambda>c1.
     and_then (visa_query T (''SOUR'' @ str_int channel @ '':FUNC:SHAP?'')) (\<lambda>r.
     and_then (set_entry channel ''Waveform'' (PStr r) c1) (\<lambda>c2.
     and_then (visa_query T (''SOUR'' @ str_int channel @ '':FREQ?'')) (\<lambda>r.
     and_then (parse_number P r) (\<lambda>x.
     and_then (set_entry channel ''Frequency'' (PNum x) c2) (\<lambda>c3.
     and_then (visa_query T (''SOUR'' @ str_int channel @ '':VOLT:LEV:IMM:AMPL?'')) (\<lambda>r.
     and_then (parse_number P r) (\<lambda>x.
     and_then (set_entry channel ''Amplitude'' (PNum x) c3) (\<lambda>c4.
     and_then (visa_query T (''SOUR'' @ str_int channel @ '':VOLT:LEV:IMM:OFFS?'')) (\<lambda>r.
     and_then (parse_number P r) (\<lambda>x.
     and_then (set_entry channel ''Offset'' (PNum x) c4) (\<lambda>c5.
     and_then (visa_query T (''SOUR'' @ str_int channel @ '':PHAS?'')) (\<lambda>r.
     and_then (parse_number P r) (\<lambda>x.
     and_then (set_entry channel ''Phase'' (PNum x) c5) (\<lambda>c6.
     and_then (query_duty_cycle P T channel c6) (\<lambda>c7.
     query_symmetry P T channel c7))))))))))))))))))"

fun query_channels ::
  "py \<Rightarrow> 'd visa \<Rightarrow> int list \<Rightarrow> config \<Rightarrow> ('d, 'z) io_scheme \<Rightarrow> (error + config) \<times> ('d, 'z) io_scheme" where
  "query_channels P T [] c s = (Inr c, s)"
| "query_channels P T (channel # rest) c s =
     (case query_channel P T channel c s of
        (Inl e, s') \<Rightarrow> (Inl e, s')
      | (Inr c', s') \<Rightarrow> query_channels P T rest c' s')"

definition empty_config :: "int \<Rightarrow> config" where
  "empty_config n = \<lparr>chans = (\<lambda>i. if i \<in> {1..n} then Some Map.empty else None), top = Map.empty\<rparr>"

definition get_config_output ::
  "py \<Rightarrow> 'd visa \<Rightarrow> int \<Rightarrow> ('d, 'z) io_scheme \<Rightarrow> (error + config) \<times> ('d, 'z) io_scheme" where
  "get_config_output P T n = query_channels P T [1..n] (empty_config n)"

definition gen_init :: "py \<Rightarrow> 'd visa \<Rightarrow> int \<Rightarrow> 'd \<Rightarrow> error + 'd gen" where
  "gen_init P T n d =
     (case visa_query T ''*IDN?'' \<lparr>dev = d, sent = [], asked = [], out = []\<rparr> of
        (Inl e, s) \<Rightarrow> Inl e
      | (Inr idn, s) \<Rightarrow>
          (case get_config_output P T n (py_print idn s) of
             (Inl e, s') \<Rightarrow> Inl e
           | (Inr c, s') \<Rightarrow>
               Inr \<lparr>dev = dev s', sent = sent s', asked = asked s', out = out s',
                    nchannels = n, config_output = c\<rparr>))"

section \<open>The oscilloscope\<close>

record measure_config =
  Source :: rat
  Type :: string

record 'd osci = "'d io" +
  config_measure :: measure_config

definition get_config_measure ::
  "py \<Rightarrow> 'd visa \<Rightarrow> ('d, 'z) io_scheme \<Rightarrow> (error + measure_config) \<times> ('d, 'z) io_scheme" where
  "get_config_measure P T =
     and_then (visa_query T ''MEASU:IMM:SOU?'') (\<lambda>r1.
     and_then (parse_number P r1) (\<lambda>src.
     and_then (visa_query T ''MEASU:IMM:TYP?'') (\<lambda>r2.
     return \<lparr>Source = src, Type = r2\<rparr>)))"

definition set_source :: "'d visa \<Rightarrow> int \<Rightarrow> 'd osci \<Rightarrow> (error + unit) \<times> 'd osci" where
  "set_source T channel s =
     (if Source (config_measure s) \<noteq> of_int channel then
        and_then (visa_write T (''MEASU:IMM:SOU CH'' @ str_int channel))
          (\<lambda>_ s'. (Inr (), py_print (''Measure source changed to '' @ quoted (''CH'' @ str_int channel)) s')) s
      else (Inr (), s))"

definition set_type :: "'d visa \<Rightarrow> string \<Rightarrow> 'd osci \<Rightarrow> (error + unit) \<times> 'd osci" where
  "set_type T aux s =
     (if Type (config_measure s) \<noteq> aux then
        and_then (visa_write T (''MEASU:IMM:TYP '' @ aux))
          (\<lambda>_ s'. (Inr (), py_print (''Measure type changed to '' @ quoted aux) s')) s
      else (Inr (), s))"

definition refresh_measure :: "py \<Rightarrow> 'd visa \<Rightarrow> 'd osci \<Rightarrow> (error + unit) \<times> 'd osci" where
  "refresh_measure P T =
     and_then (get_config_measure P T) (\<lambda>c s. (Inr (), s\<lparr>config_measure := c\<rparr>))"

definition osci_channel :: "int \<Rightarrow> int" where
  "osci_channel channel = (if channel \<notin> set [1, 2] then 1 else channel)"

definition osci_channel_warning :: string where
  "osci_channel_warning = ''Unrecognized measure source ('' @ quoted ''CH1'' @ '' as default).''"

definition osci_warn_channel :: "int \<Rightarrow> 'd osci \<Rightarrow> 'd osci" where
  "osci_warn_channel channel s =
     (if channel \<notin> set [1, 2] then py_print osci_channel_warning s else s)"

definition re_config_measure ::
  "py \<Rightarrow> 'd visa \<Rightarrow> string \<Rightarrow> int \<Rightarrow> 'd osci \<Rightarrow> (error + unit) \<times> 'd osci" where
  "re_config_measure P T mtype channel s =
     (let ch = osci_channel channel; s1 = osci_warn_channel channel s
      in case normalize_mtype mtype of
           (Inl e, warn) \<Rightarrow> (Inl e, s1\<lparr>out := out s1 @ warn\<rparr>)
         | (Inr aux, warn) \<Rightarrow>
             and_then (set_source T ch) (\<lambda>_.
             and_then (set_type T aux) (\<lambda>_.
             refresh_measure P T))
               (s1\<lparr>out := out s1 @ warn\<rparr>))"


section \<open>Notions used to state the properties\<close>

definition effective_waveform :: "output_args \<Rightarrow> int \<Rightarrow> 'd gen \<Rightarrow> error + pyval" where
  "effective_waveform a channel s =
     (case waveform a of
        Some raw \<Rightarrow> Inr (PStr (fst (normalize_waveform raw)))
      | None \<Rightarrow> cache_get channel ''Waveform'' (config_output s))"

definition gating :: "pyval \<Rightarrow> output_args \<Rightarrow> error + unit" where
  "gating w a =
     (if duty_cycle a \<noteq> None \<and> w \<noteq> PStr ''PULS'' then Inl duty_cycle_error
      else if symmetry a \<noteq> None \<and> w \<noteq> PStr ''RAMP'' then Inl symmetry_error
      else Inr ())"

fun first_guard :: "step list \<Rightarrow> error + unit" where
  "first_guard [] = Inr ()"
| "first_guard (st # sts) = (case step_guard st of Some e \<Rightarrow> Inl e | None \<Rightarrow> first_guard sts)"

definition entries_cached :: "'d gen \<Rightarrow> int \<Rightarrow> step list \<Rightarrow> bool" where
  "entries_cached s channel sts =
     list_all (\<lambda>st. step_guard st \<noteq> None \<or> cached s channel (step_key st) \<noteq> None) sts"

definition reliable :: "'d visa \<Rightarrow> bool" where
  "reliable T = (\<forall>c d. vwrite T c d \<noteq> None)"

definition osci_writes :: "'d osci \<Rightarrow> int \<Rightarrow> string \<Rightarrow> string list" where
  "osci_writes s channel aux =
     (if Source (config_measure s) \<noteq> of_int channel
      then [''MEASU:IMM:SOU CH'' @ str_int channel] else [])
     @ (if Type (config_measure s) \<noteq> aux then [''MEASU:IMM:TYP '' @ aux] else [])"

definition new_writes :: "('d, 'z) io_scheme \<Rightarrow> ('d, 'z) io_scheme \<Rightarrow> string list" where
  "new_writes s s' = drop (length (sent s)) (sent s')"

section \<open>Concrete instruments for the examples\<close>

definition demo_py :: py where
  "demo_py =
     \<lparr>str_num = (\<lambda>x. str_int \<lfloor>x\<rfloor>),
      str_num_1f = (\<lambda>x. str_int \<lfloor>x\<rfloor> @ ''.0''),
      find_1st_number =
        map_of [(''CH1'', 1), (''CH2'', 2), (''0'', 0), (''1'', 1), (''50'', 50), (''1000'', 1000)],
      py_int = map_of [(''0'', 0), (''1'', 1)]\<rparr>"

definition demo_afg :: "unit visa" where
  "demo_afg =
     \<lparr>vwrite = (\<lambda>c d. Some d),
      vquery = (\<lambda>q d. map_option (\<lambda>r. (r, d))
        (map_of
          [(''*IDN?'', ''TEKTRONIX,AFG3021B''), (''OUTP1:STAT?'', ''0''),
           (''SOUR1:FUNC:SHAP?'', ''SIN''), (''SOUR1:FREQ?'', ''1000''),
           (''SOUR1:VOLT:LEV:IMM:AMPL?'', ''1''), (''SOUR1:VOLT:LEV:IMM:OFFS?'', ''0''),
           (''SOUR1:PHAS?'', ''0''), (''SOUR1:PULS:DCYC?'', ''50''),
           (''SOUR1:FUNC:RAMP:SYMM?'', ''50'')] q))\<rparr>"

definition flaky_afg :: "unit visa" where
  "flaky_afg =
     \<lparr>vwrite = (\<lambda>c d. if c = ''SOUR1:VOLT:LEV:IMM:AMPL 2'' then None else Some d),
      vquery = (\<lambda>q d. None)\<rparr>"

definition omitted :: output_args where
  "omitted =
     \<lparr>waveform = None, frequency = None, amplitude = None, offset = None, phase = None,
      duty_cycle = None, symmetry = None, print_changes = False\<rparr>"

definition dead_link :: "unit visa" where
  "dead_link = \<lparr>vwrite = (\<lambda>c d. None), vquery = (\<lambda>q d. None)\<rparr>"

definition demo_channel :: chan_state where
  "demo_channel =
     [''Status'' \<mapsto> PBool True, ''Waveform'' \<mapsto> PStr ''SIN'', ''Frequency'' \<mapsto> PNum 1000,
      ''Amplitude'' \<mapsto> PNum 1, ''Offset'' \<mapsto> PNum 0, ''Phase'' \<mapsto> PNum 0,
      ''Symmetry'' \<mapsto> PNum 50, ''Duty Cycle'' \<mapsto> PNum 50]"

definition demo_gen :: "unit gen" where
  "demo_gen =
     \<lparr>dev = (), sent = [], asked = [], out = [], nchannels = 2,
      config_output = \<lparr>chans = [1 \<mapsto> demo_channel, 2 \<mapsto> demo_channel], top = Map.empty\<rparr>\<rparr>"

definition long_form :: "string \<Rightarrow> string" where
  "long_form t =
     (case map_of [(''MINI'', ''MINIMUM''), (''MAXI'', ''MAXIMUM''), (''FREQ'', ''FREQUENCY''),
                   (''PER'', ''PERIOD'')] t of
        None \<Rightarrow> t
      | Some l \<Rightarrow> l)"

definition scope_device :: "(string \<Rightarrow> string) \<Rightarrow> (string \<times> string) visa" where
  "scope_device answer =
     \<lparr>vwrite = (\<lambda>c d.
        if prefix ''MEASU:IMM:SOU '' c then Some (drop 14 c, snd d)
        else if prefix ''MEASU:IMM:TYP '' c then Some (fst d, answer (drop 14 c))
        else Some d),
      vquery = (\<lambda>q d.
        if q = ''MEASU:IMM:SOU?'' then Some (fst d, d)
        else if q = ''MEASU:IMM:TYP?'' then Some (snd d, d)
        else None)\<rparr>"

definition demo_osci :: "string \<Rightarrow> (string \<times> string) osci" where
  "demo_osci typ =
     \<lparr>dev = (''CH1'', typ), sent = [], asked = [], out = [],
      config_measure = \<lparr>Source = 1, Type = typ\<rparr>\<rparr>"


section \<open>Proofs\<close>

lemma contains_sublist: "contains k s = sublist k s"
  by (induction s) (simp_all add: sublist_Cons_right)

lemma scan_keys_last:
  "scan_keys dic m aux =
     (if matching dic m = [] then aux else Some (snd (last (matching dic m))))"
  by (induction dic arbitrary: aux) (auto simp: matching_def)

lemma scan_waveform_fixed:
  "\<forall>kv\<in>set dic. \<not> contains (fst kv) w \<Longrightarrow> scan_waveform dic w = w"
  by (induction dic) auto

lemma scan_waveform_first:
  assumes "\<forall>kv\<in>set dic. \<forall>kv'\<in>set dic. \<not> contains (fst kv') (snd kv)"
  shows "scan_waveform dic w =
           (if matching dic w = [] then w else snd (hd (matching dic w)))"
  using assms
proof (induction dic arbitrary: w)
  case Nil
  then show ?case by (simp add: matching_def)
next
  case (Cons kv dic)
  obtain k v where kv: "kv = (k, v)" by (cases kv)
  show ?case
  proof (cases "contains k w")
    case True
    have "\<forall>kv'\<in>set dic. \<not> contains (fst kv') v"
      using Cons.prems kv by auto
    then have "scan_waveform dic v = v" by (rule scan_waveform_fixed)
    with True kv show ?thesis by (simp add: matching_def)
  next
    case False
    have "\<forall>kv\<in>set dic. \<forall>kv'\<in>set dic. \<not> contains (fst kv') (snd kv)"
      using Cons.prems by auto
    from Cons.IH[OF this] False kv show ?thesis by (simp add: matching_def)
  qed
qed

lemma gen_dic_keys_not_in_tokens:
  "\<forall>kv\<in>set gen_dic. \<forall>kv'\<in>set gen_dic. \<not> contains (fst kv') (snd kv)"
  by (simp add: gen_dic_def)

lemma lower_char_not_upper: "lower_char c \<notin> set ''ABCDEFGHIJKLMNOPQRSTUVWXYZ''"
proof (cases "map_of (zip ''ABCDEFGHIJKLMNOPQRSTUVWXYZ'' ''abcdefghijklmnopqrstuvwxyz'') c")
  case None
  then have "c \<notin> set ''ABCDEFGHIJKLMNOPQRSTUVWXYZ''"
    by (subst (asm) map_of_zip_is_None) simp_all
  with None show ?thesis by (simp add: lower_char_def)
next
  case (Some l)
  then have "l \<in> set ''abcdefghijklmnopqrstuvwxyz''"
    by (meson map_of_SomeD set_zip_rightD)
  then have "l \<notin> set ''ABCDEFGHIJKLMNOPQRSTUVWXYZ''" by auto
  with Some show ?thesis by (simp add: lower_char_def)
qed

lemma lower_no_upper:
  "u \<in> set ''ABCDEFGHIJKLMNOPQRSTUVWXYZ'' \<Longrightarrow> u \<notin> set (lower s)"
  using lower_char_not_upper by (auto simp: lower_def)

lemma lower_not_gen_token: "lower s \<notin> set (map snd gen_dic)"
proof
  assume "lower s \<in> set (map snd gen_dic)"
  then have "CHR ''S'' \<in> set (lower s) \<or> CHR ''L'' \<in> set (lower s) \<or> CHR ''R'' \<in> set (lower s)"
    by (auto simp: gen_dic_def)
  then show False using lower_no_upper[of _ s] by auto
qed

lemma osci_tokens_closed:
  "matching osci_dic m \<noteq> [] \<Longrightarrow> snd (last (matching osci_dic m)) \<in> set (map snd osci_dic)"
proof -
  assume "matching osci_dic m \<noteq> []"
  then have "last (matching osci_dic m) \<in> set (matching osci_dic m)" by simp
  then have "last (matching osci_dic m) \<in> set osci_dic" by (simp add: matching_def)
  then show ?thesis by simp
qed

lemma gen_tokens_closed:
  "matching gen_dic m \<noteq> [] \<Longrightarrow> snd (hd (matching gen_dic m)) \<in> set (map snd gen_dic)"
proof -
  assume "matching gen_dic m \<noteq> []"
  then have "hd (matching gen_dic m) \<in> set (matching gen_dic m)" by simp
  then have "hd (matching gen_dic m) \<in> set gen_dic" by (simp add: matching_def)
  then show ?thesis by simp
qed

text \<open>
  Claim C1 (as amended). For a raw string that does not take the \<open>'c'\<close> branch and contains
  at least one vocabulary key, \<open>Osci.re_config_measure\<close> resolves it to the token of the last
  matching key in table order, while \<open>Gen.re_config_output\<close> resolves it to the token of the
  first matching key: its loop overwrites the scanned string with the token at the first match,
  and no key occurs inside a token. No warning is printed in either case.
\<close>

theorem keyword_precedence:
  assumes "\<not> contains ''c'' (lower raw)"
  shows "(matching osci_dic (lower raw) \<noteq> [] \<longrightarrow>
            normalize_mtype raw = (Inr (snd (last (matching osci_dic (lower raw)))), []))
       \<and> (matching gen_dic (lower raw) \<noteq> [] \<longrightarrow>
            normalize_waveform raw = (snd (hd (matching gen_dic (lower raw))), []))"
proof (intro conjI impI)
  assume m: "matching osci_dic (lower raw) \<noteq> []"
  from osci_tokens_closed[OF m] assms m
  show "normalize_mtype raw = (Inr (snd (last (matching osci_dic (lower raw)))), [])"
    by (simp add: normalize_mtype_def scan_keys_last)
next
  assume m: "matching gen_dic (lower raw) \<noteq> []"
  from gen_tokens_closed[OF m] assms m
  show "normalize_waveform raw = (snd (hd (matching gen_dic (lower raw))), [])"
    by (simp add: normalize_waveform_def scan_waveform_first[OF gen_dic_keys_not_in_tokens])
qed

theorem keyword_precedence_witness:
  "normalize_mtype ''MinMax'' = (Inr ''MAXI'', []) \<and> normalize_waveform ''lorgau'' = (''LOR'', [])"
  using keyword_precedence[of "''MinMax''"] keyword_precedence[of "''lorgau''"]
  by (simp add: lower_def lower_char_def matching_def osci_dic_def gen_dic_def)

text \<open>
  The claim as stated fails for the waveform table: \<open>'lorgau'\<close> contains the keys
  \<open>'lor'\<close> and \<open>'gau'\<close>, the later one maps to \<open>'GAUS'\<close>, and the code returns \<open>'LOR'\<close>.
\<close>

theorem waveform_last_key_counterexample:
  "\<not> contains ''c'' (lower ''lorgau'')
   \<and> map fst (matching gen_dic (lower ''lorgau'')) = [''lor'', ''gau'']
   \<and> snd (last (matching gen_dic (lower ''lorgau''))) = ''GAUS''
   \<and> normalize_waveform ''lorgau'' = (''LOR'', [])"
  by (simp add: normalize_waveform_def lower_def lower_char_def matching_def gen_dic_def)

lemma waveform_default:
  assumes "\<not> contains ''c'' (lower raw)" "matching gen_dic (lower raw) = []"
  shows "normalize_waveform raw = (''SIN'', [''Unrecognized Waveform ('SIN' as default).''])"
  using assms lower_not_gen_token[of raw]
  by (simp add: normalize_waveform_def scan_waveform_first[OF gen_dic_keys_not_in_tokens])

lemma normalize_mtype_unbound:
  assumes "\<not> contains ''c'' (lower mtype)" "matching osci_dic (lower mtype) = []"
  shows "normalize_mtype mtype = (Inl (UnboundLocalError ''aux''), [])"
  using assms by (simp add: normalize_mtype_def scan_keys_last)

lemma run_steps_append:
  "run_steps T pc ch (xs @ ys) s =
     (case run_steps T pc ch xs s of
        (Inl e, s') \<Rightarrow> (Inl e, s')
      | (Inr u, s') \<Rightarrow> run_steps T pc ch ys s')"
  by (induction xs arbitrary: s) (auto split: prod.splits sum.splits)

lemma when_given_steps:
  "when_given arg (\<lambda>x. run_step T pc ch (f x)) s = run_steps T pc ch (given arg f) s"
  by (cases arg) (auto simp: when_given_def given_def return_def split: prod.splits sum.splits)

lemma re_config_output_plan:
  "re_config_output P T channel a s =
     (case resolve_waveform a (coerce_channel channel s) (warn_channel channel s) of
        (Inl e, s1) \<Rightarrow> (Inl e, s1)
      | (Inr w, s1) \<Rightarrow>
          run_steps T (print_changes a) (coerce_channel channel s)
            (gen_plan P (coerce_channel channel s) w a) s1)"
  unfolding re_config_output_def Let_def gen_plan_def and_then_def when_given_steps
    run_steps.simps run_steps_append
  by (auto split: prod.splits sum.splits)

lemma cached_io_update [simp]:
  "cached (s\<lparr>sent := x\<rparr>) = cached s"
  "cached (s\<lparr>dev := d\<rparr>) = cached s"
  "cached (s\<lparr>out := y\<rparr>) = cached s"
  "cached (s\<lparr>asked := z\<rparr>) = cached s"
  "cached (py_print m s) = cached s"
  by (simp_all add: cached_def py_print_def fun_eq_iff)

lemma cached_cache_put:
  "cached s ch k = Some old \<Longrightarrow>
   cached (s\<lparr>config_output := cache_put ch k v (config_output s)\<rparr>) c k' =
     (if c = ch \<and> k' = k then Some v else cached s c k')"
  by (auto simp: cached_def cache_put_def split: option.splits)

lemma cache_get_cached:
  "cache_get ch k (config_output s) = Inr v \<longleftrightarrow> cached s ch k = Some v"
  by (auto simp: cache_get_def cached_def split: option.splits)

lemma cache_get_missing:
  "cache_get ch k (config_output s) = Inl e \<Longrightarrow> cached s ch k = None \<and> e \<noteq> TransportError"
  by (auto simp: cache_get_def cached_def split: option.splits)

lemma run_step_E:
  assumes "run_step T pc ch st s = (r, s')"
  obtains
    (guard) e where "step_guard st = Some e" "r = Inl e" "s' = s"
  | (missing) e where "step_guard st = None" "cached s ch (step_key st) = None"
      "r = Inl e" "e \<noteq> TransportError" "s' = s"
  | (same) "step_guard st = None" "cached s ch (step_key st) = Some (step_value st)"
      "r = Inr ()" "s' = s"
  | (failed) old where "step_guard st = None" "cached s ch (step_key st) = Some old"
      "old \<noteq> step_value st" "vwrite T (step_cmd st) (dev s) = None"
      "r = Inl TransportError" "s' = s\<lparr>sent := sent s @ [step_cmd st]\<rparr>"
  | (written) old d where "step_guard st = None" "cached s ch (step_key st) = Some old"
      "old \<noteq> step_value st" "vwrite T (step_cmd st) (dev s) = Some d"
      "r = Inr ()"
      "s' = (if pc then py_print (step_msg st) else id)
              (s\<lparr>dev := d, sent := sent s @ [step_cmd st],
                 config_output := cache_put ch (step_key st) (step_value st) (config_output s)\<rparr>)"
proof (cases "step_guard st")
  case (Some e)
  with assms have "r = Inl e" "s' = s" by (simp_all add: run_step_def)
  with Some show thesis by (rule guard)
next
  case None
  show thesis
  proof (cases "cache_get ch (step_key st) (config_output s)")
    case (Inl e)
    with assms None have "r = Inl e" "s' = s" by (simp_all add: run_step_def)
    with None cache_get_missing[OF Inl] show thesis by (intro missing[of e]) simp_all
  next
    case (Inr old)
    then have c: "cached s ch (step_key st) = Some old" by (simp add: cache_get_cached)
    show thesis
    proof (cases "old = step_value st")
      case True
      with assms None Inr have "r = Inr ()" "s' = s" by (simp_all add: run_step_def)
      with None c True show thesis by (intro same) simp_all
    next
      case False
      show thesis
      proof (cases "vwrite T (step_cmd st) (dev s)")
        case N: None
        with assms None Inr False have "r = Inl TransportError" "s' = s\<lparr>sent := sent s @ [step_cmd st]\<rparr>"
          by (simp_all add: run_step_def visa_write_def)
        with None c False N show thesis by (intro failed[of old])
      next
        case (Some d)
        with assms None Inr False have "r = Inr ()"
          "s' = (if pc then py_print (step_msg st) else id)
              (s\<lparr>dev := d, sent := sent s @ [step_cmd st],
                 config_output := cache_put ch (step_key st) (step_value st) (config_output s)\<rparr>)"
          by (simp_all add: run_step_def visa_write_def)
        with None c False Some show thesis by (intro written[of old d])
      qed
    qed
  qed
qed

lemma cached_written:
  assumes "cached s ch k = Some old"
  shows "cached ((if pc then py_print m else id)
     (s\<lparr>dev := d, sent := x, config_output := cache_put ch k v (config_output s)\<rparr>)) c k' =
   (if c = ch \<and> k' = k then Some v else cached s c k')"
proof -
  have "cached ((if pc then py_print m else id)
     (s\<lparr>dev := d, sent := x, config_output := cache_put ch k v (config_output s)\<rparr>)) c k'
      = cached (s\<lparr>config_output := cache_put ch k v (config_output s)\<rparr>) c k'"
    by (simp add: cached_def py_print_def)
  then show ?thesis using assms by (simp add: cached_cache_put)
qed

lemma run_step_frame:
  assumes "run_step T pc ch st s = (r, s')"
  shows "asked s' = asked s \<and> nchannels s' = nchannels s
       \<and> top (config_output s') = top (config_output s)
       \<and> (c \<noteq> ch \<or> k \<noteq> step_key st \<longrightarrow> cached s' c k = cached s c k)"
  using assms
proof (cases rule: run_step_E)
  case (written old d)
  have "top (cache_put ch (step_key st) (step_value st) (config_output s)) = top (config_output s)"
    by (simp add: cache_put_def split: option.splits)
  with written show ?thesis
    by (auto simp: cached_written[OF written(2)] py_print_def)
qed simp_all

lemma run_step_ok:
  assumes "run_step T pc ch st s = (Inr (), s')"
  shows "cached s' ch (step_key st) = Some (step_value st)
       \<and> sent s' = sent s @ map step_cmd (changed s ch [st])
       \<and> step_guard st = None"
  using assms
proof (cases rule: run_step_E)
  case same
  then show ?thesis by (simp add: changed_def)
next
  case (written old d)
  then show ?thesis by (simp add: cached_written[OF written(2)] changed_def py_print_def)
qed simp_all

lemma run_step_error_state:
  assumes "run_step T pc ch st s = (Inl e, s')" "e \<noteq> TransportError"
  shows "s' = s"
proof -
  from assms(1) show ?thesis
    using assms(2) by (cases rule: run_step_E) simp_all
qed

lemma run_step_transport:
  assumes "run_step T pc ch st s = (Inl TransportError, s')"
    and "step_guard st \<noteq> Some TransportError"
  shows "s' = s\<lparr>sent := sent s @ [step_cmd st]\<rparr> \<and> vwrite T (step_cmd st) (dev s) = None
       \<and> cached s ch (step_key st) \<noteq> Some (step_value st) \<and> step_guard st = None"
proof -
  from assms(1) show ?thesis
    using assms(2) by (cases rule: run_step_E) simp_all
qed

lemma run_step_same:
  assumes "step_guard st = None" "cached s ch (step_key st) = Some (step_value st)"
  shows "run_step T pc ch st s = (Inr (), s)"
  using assms by (simp add: run_step_def cache_get_cached[THEN iffD2])

lemma run_steps_frame:
  assumes "run_steps T pc ch sts s = (r, s')"
  shows "asked s' = asked s \<and> nchannels s' = nchannels s
       \<and> top (config_output s') = top (config_output s)
       \<and> (c \<noteq> ch \<or> k \<notin> step_key ` set sts \<longrightarrow> cached s' c k = cached s c k)"
  using assms
proof (induction sts arbitrary: s)
  case Nil
  then show ?case by simp
next
  case (Cons st sts)
  obtain r1 s1 where 1: "run_step T pc ch st s = (r1, s1)" by (cases "run_step T pc ch st s")
  note f = run_step_frame[OF 1, of c k]
  show ?case
  proof (cases r1)
    case (Inl e)
    with Cons.prems 1 have "s' = s1" by simp
    with f show ?thesis by auto
  next
    case (Inr u)
    with Cons.prems 1 have "run_steps T pc ch sts s1 = (r, s')" by simp
    from Cons.IH[OF this] f show ?thesis by auto
  qed
qed

lemma changed_frame:
  assumes "\<forall>st\<in>set sts. cached s1 ch (step_key st) = cached s ch (step_key st)"
  shows "changed s1 ch sts = changed s ch sts"
  using assms by (induction sts) (simp_all add: changed_def)

text \<open>A run that completes: one command per differing step, every step's value cached.\<close>

lemma run_steps_ok:
  assumes "run_steps T pc ch sts s = (Inr (), s')" "distinct (map step_key sts)"
  shows "sent s' = sent s @ map step_cmd (changed s ch sts)
       \<and> (\<forall>st\<in>set sts. cached s' ch (step_key st) = Some (step_value st) \<and> step_guard st = None)"
  using assms
proof (induction sts arbitrary: s)
  case Nil
  then show ?case by (simp add: changed_def)
next
  case (Cons st sts)
  obtain r1 s1 where 1: "run_step T pc ch st s = (r1, s1)" by (cases "run_step T pc ch st s")
  with Cons.prems have r1: "r1 = Inr ()" and rest: "run_steps T pc ch sts s1 = (Inr (), s')"
    by (auto split: sum.splits)
  note ok = run_step_ok[OF 1[unfolded r1]]
  from Cons.prems have d: "distinct (map step_key sts)" and nk: "step_key st \<notin> step_key ` set sts"
    by simp_all
  note ih = Cons.IH[OF rest d]
  have same: "\<forall>x\<in>set sts. cached s1 ch (step_key x) = cached s ch (step_key x)"
    using run_step_frame[OF 1] nk by (metis imageI)
  have keep: "cached s' ch (step_key st) = cached s1 ch (step_key st)"
    using run_steps_frame[OF rest, of ch "step_key st"] nk by simp
  have "changed s ch (st # sts) = changed s ch [st] @ changed s ch sts"
    by (simp add: changed_def)
  with ih ok keep changed_frame[OF same] show ?case by simp
qed

text \<open>Idempotence of a plan: a run that was not cut by the transport leaves a state
  on which the same plan does nothing.\<close>

lemma run_steps_again:
  assumes "run_steps T pc ch sts s = (r, s')" "r \<noteq> Inl TransportError"
    "distinct (map step_key sts)"
  shows "run_steps T pc ch sts s' = (r, s')"
  using assms
proof (induction sts arbitrary: s)
  case Nil
  then show ?case by simp
next
  case (Cons st sts)
  obtain r1 s1 where 1: "run_step T pc ch st s = (r1, s1)" by (cases "run_step T pc ch st s")
  show ?case
  proof (cases r1)
    case (Inl e)
    with Cons.prems 1 have r: "r = Inl e" and s': "s' = s1" by simp_all
    with Cons.prems have "e \<noteq> TransportError" by simp
    from run_step_error_state[OF 1[unfolded Inl] this] have "s1 = s" .
    with 1 Inl r s' show ?thesis by simp
  next
    case (Inr u)
    with Cons.prems 1 have rest: "run_steps T pc ch sts s1 = (r, s')" by simp
    from Cons.prems have d: "distinct (map step_key sts)" and nk: "step_key st \<notin> step_key ` set sts"
      by simp_all
    from 1 Inr have first: "run_step T pc ch st s = (Inr (), s1)" by simp
    note ok = run_step_ok[OF first]
    have "cached s' ch (step_key st) = cached s1 ch (step_key st)"
      using run_steps_frame[OF rest, of ch "step_key st"] nk by simp
    with ok have "run_step T pc ch st s' = (Inr (), s')" by (intro run_step_same) simp_all
    with Cons.IH[OF rest Cons.prems(2) d] show ?thesis by simp
  qed
qed

lemma run_steps_effect:
  assumes "run_steps T pc ch sts s = (r, s')" "distinct (map step_key sts)"
    "\<forall>st\<in>set sts. step_guard st \<noteq> Some TransportError"
  shows "\<exists>pre post. sts = pre @ post
     \<and> (r = Inr () \<longrightarrow> post = [])
     \<and> (\<forall>p\<in>set pre. cached s' ch (step_key p) = Some (step_value p) \<and> step_guard p = None)
     \<and> (\<forall>q\<in>set post. cached s' ch (step_key q) = cached s ch (step_key q))
     \<and> sent s' = sent s @ map step_cmd (changed s ch pre)
                   @ (if r = Inl TransportError then [step_cmd (hd post)] else [])
     \<and> (r = Inl TransportError \<longrightarrow> post \<noteq> []
            \<and> vwrite T (step_cmd (hd post)) (dev s') = None
            \<and> cached s ch (step_key (hd post)) \<noteq> Some (step_value (hd post))
            \<and> step_guard (hd post) = None)"
  using assms
proof (induction sts arbitrary: s)
  case Nil
  then show ?case by (auto simp: changed_def)
next
  case (Cons st sts)
  obtain r1 s1 where 1: "run_step T pc ch st s = (r1, s1)" by (cases "run_step T pc ch st s")
  show ?case
  proof (cases r1)
    case (Inl e)
    with Cons.prems 1 have r: "r = Inl e" and s': "s' = s1" by simp_all
    from 1 Inl have first: "run_step T pc ch st s = (Inl e, s1)" by simp
    show ?thesis
    proof (cases "e = TransportError")
      case True
      from Cons.prems have "step_guard st \<noteq> Some TransportError" by simp
      from run_step_transport[OF first[unfolded True] this]
      have "s1 = s\<lparr>sent := sent s @ [step_cmd st]\<rparr>" "vwrite T (step_cmd st) (dev s) = None"
        "cached s ch (step_key st) \<noteq> Some (step_value st)" "step_guard st = None" by simp_all
      with r s' True show ?thesis
        by (intro exI[of _ "[]"] exI[of _ "st # sts"]) (simp add: changed_def)
    next
      case False
      from run_step_error_state[OF first False] have "s1 = s" .
      with r s' False show ?thesis
        by (intro exI[of _ "[]"] exI[of _ "st # sts"]) (simp add: changed_def)
    qed
  next
    case (Inr u)
    with Cons.prems 1 have rest: "run_steps T pc ch sts s1 = (r, s')" by simp
    from Cons.prems have d: "distinct (map step_key sts)"
      and nk: "step_key st \<notin> step_key ` set sts"
      and g: "\<forall>st\<in>set sts. step_guard st \<noteq> Some TransportError"
      by simp_all
    from 1 Inr have first: "run_step T pc ch st s = (Inr (), s1)" by simp
    note ok = run_step_ok[OF first]
    from Cons.IH[OF rest d g] obtain pre post where ih:
      "sts = pre @ post" "r = Inr () \<longrightarrow> post = []"
      "\<forall>p\<in>set pre. cached s' ch (step_key p) = Some (step_value p) \<and> step_guard p = None"
      "\<forall>q\<in>set post. cached s' ch (step_key q) = cached s1 ch (step_key q)"
      "sent s' = sent s1 @ map step_cmd (changed s1 ch pre)
                   @ (if r = Inl TransportError then [step_cmd (hd post)] else [])"
      "r = Inl TransportError \<longrightarrow> post \<noteq> []
            \<and> vwrite T (step_cmd (hd post)) (dev s') = None
            \<and> cached s1 ch (step_key (hd post)) \<noteq> Some (step_value (hd post))
            \<and> step_guard (hd post) = None"
      by blast
    have same: "\<forall>x\<in>set sts. cached s1 ch (step_key x) = cached s ch (step_key x)"
      using run_step_frame[OF 1] nk by (metis imageI)
    have keep: "cached s' ch (step_key st) = cached s1 ch (step_key st)"
      using run_steps_frame[OF rest, of ch "step_key st"] nk by simp
    have a: "\<forall>p\<in>set (st # pre). cached s' ch (step_key p) = Some (step_value p) \<and> step_guard p = None"
      using ih(3) keep ok by simp
    have b: "\<forall>q\<in>set post. cached s' ch (step_key q) = cached s ch (step_key q)"
      using ih(1,4) same by simp
    have "changed s1 ch pre = changed s ch pre"
      using same ih(1) by (intro changed_frame) simp
    then have c: "sent s' = sent s @ map step_cmd (changed s ch (st # pre))
                   @ (if r = Inl TransportError then [step_cmd (hd post)] else [])"
      using ih(5) ok by (simp add: changed_def)
    have e: "r = Inl TransportError \<longrightarrow> post \<noteq> []
            \<and> vwrite T (step_cmd (hd post)) (dev s') = None
            \<and> cached s ch (step_key (hd post)) \<noteq> Some (step_value (hd post))
            \<and> step_guard (hd post) = None"
    proof
      assume t: "r = Inl TransportError"
      with ih(6) have ne: "post \<noteq> []" by simp
      then have "hd post \<in> set sts" using ih(1) by simp
      with same have "cached s1 ch (step_key (hd post)) = cached s ch (step_key (hd post))" by simp
      with ih(6) t show "post \<noteq> []
            \<and> vwrite T (step_cmd (hd post)) (dev s') = None
            \<and> cached s ch (step_key (hd post)) \<noteq> Some (step_value (hd post))
            \<and> step_guard (hd post) = None" by simp
    qed
    have "st # sts = (st # pre) @ post" using ih(1) by simp
    with ih(2) a b c e show ?thesis by blast
  qed
qed

lemma run_steps_guarded:
  assumes "st \<in> set sts" "step_guard st \<noteq> None"
  shows "fst (run_steps T pc ch sts s) \<noteq> Inr ()"
proof
  assume "fst (run_steps T pc ch sts s) = Inr ()"
  then have "run_steps T pc ch sts s = (Inr (), snd (run_steps T pc ch sts s))"
    by (metis prod.collapse)
  then show False using assms
  proof (induction sts arbitrary: s)
    case Nil
    then show ?case by simp
  next
    case (Cons x xs)
    obtain r1 s1 where 1: "run_step T pc ch x s = (r1, s1)" by (cases "run_step T pc ch x s")
    with Cons.prems(1) have r1: "r1 = Inr ()" and rest: "run_steps T pc ch xs s1 = (Inr (), snd (run_steps T pc ch (x # xs) s))"
      by (auto split: sum.splits)
    from run_step_ok[OF 1[unfolded r1]] have gx: "step_guard x = None" by simp
    with Cons.prems have "st \<in> set xs" by auto
    moreover from rest 1 r1 have "run_steps T pc ch xs s1 = (Inr (), snd (run_steps T pc ch xs s1))"
      by simp
    ultimately show ?case using Cons.IH Cons.prems(3) by blast
  qed
qed

lemma step_keys [simp]:
  "step_key (waveform_step P ch w) = ''Waveform''"
  "step_key (frequency_step P ch x) = ''Frequency''"
  "step_key (amplitude_step P ch x) = ''Amplitude''"
  "step_key (offset_step P ch x) = ''Offset''"
  "step_key (phase_step P ch x) = ''Phase''"
  "step_key (duty_cycle_step P ch w x) = ''Duty Cycle''"
  "step_key (symmetry_step P ch w x) = ''Symmetry''"
  by (simp_all add: waveform_step_def frequency_step_def amplitude_step_def
      offset_step_def phase_step_def duty_cycle_step_def symmetry_step_def)

lemma step_values [simp]:
  "step_value (waveform_step P ch w) = w"
  "step_value (frequency_step P ch x) = PNum x"
  "step_value (amplitude_step P ch x) = PNum x"
  "step_value (offset_step P ch x) = PNum x"
  "step_value (phase_step P ch x) = PNum x"
  "step_value (duty_cycle_step P ch w x) = PNum x"
  "step_value (symmetry_step P ch w x) = PNum x"
  by (simp_all add: waveform_step_def frequency_step_def amplitude_step_def
      offset_step_def phase_step_def duty_cycle_step_def symmetry_step_def)

lemma step_guards [simp]:
  "step_guard (waveform_step P ch w) = None"
  "step_guard (frequency_step P ch x) = None"
  "step_guard (amplitude_step P ch x) = None"
  "step_guard (offset_step P ch x) = None"
  "step_guard (phase_step P ch x) = None"
  "step_guard (duty_cycle_step P ch w x) = (if w \<noteq> PStr ''PULS'' then Some duty_cycle_error else None)"
  "step_guard (symmetry_step P ch w x) = (if w \<noteq> PStr ''RAMP'' then Some symmetry_error else None)"
  by (simp_all add: waveform_step_def frequency_step_def amplitude_step_def
      offset_step_def phase_step_def duty_cycle_step_def symmetry_step_def)

lemma set_given: "set (given arg f) = (case arg of None \<Rightarrow> {} | Some x \<Rightarrow> {f x})"
  by (simp add: given_def split: option.splits)

lemma map_given: "map g (given arg f) = (case arg of None \<Rightarrow> [] | Some x \<Rightarrow> [g (f x)])"
  by (simp add: given_def split: option.splits)

lemma gen_plan_key_list:
  "map step_key (gen_plan P ch w a) =
     ''Waveform''
     # (case frequency a of None \<Rightarrow> [] | Some x \<Rightarrow> [''Frequency''])
     @ (case amplitude a of None \<Rightarrow> [] | Some x \<Rightarrow> [''Amplitude''])
     @ (case offset a of None \<Rightarrow> [] | Some x \<Rightarrow> [''Offset''])
     @ (case phase a of None \<Rightarrow> [] | Some x \<Rightarrow> [''Phase''])
     @ (case duty_cycle a of None \<Rightarrow> [] | Some x \<Rightarrow> [''Duty Cycle''])
     @ (case symmetry a of None \<Rightarrow> [] | Some x \<Rightarrow> [''Symmetry''])"
  by (simp add: gen_plan_def map_given cong: option.case_cong)

lemma gen_plan_keys: "distinct (map step_key (gen_plan P ch w a))"
  unfolding gen_plan_key_list by (simp split: option.splits)

lemma gen_plan_guards: "\<forall>st\<in>set (gen_plan P ch w a). step_guard st \<noteq> Some TransportError"
  by (auto simp: gen_plan_def set_given duty_cycle_error_def symmetry_error_def
      split: option.splits)

lemma warn_channel_fields [simp]:
  "sent (warn_channel channel s) = sent s"
  "asked (warn_channel channel s) = asked s"
  "dev (warn_channel channel s) = dev s"
  "nchannels (warn_channel channel s) = nchannels s"
  "config_output (warn_channel channel s) = config_output s"
  "cached (warn_channel channel s) = cached s"
  by (simp_all add: warn_channel_def py_print_def cached_def fun_eq_iff)

lemma resolve_waveform_state:
  assumes "resolve_waveform a ch s = (r, s1)"
  shows "sent s1 = sent s \<and> asked s1 = asked s \<and> dev s1 = dev s \<and> nchannels s1 = nchannels s
       \<and> config_output s1 = config_output s \<and> cached s1 = cached s"
  using assms
  by (auto simp: resolve_waveform_def cached_def fun_eq_iff split: option.splits sum.splits)

lemma resolve_waveform_error:
  assumes "resolve_waveform a ch s = (Inl e, s1)"
  shows "s1 = s \<and> e \<noteq> TransportError \<and> waveform a = None"
  using assms
  by (auto simp: resolve_waveform_def cache_get_def split: option.splits sum.splits)

lemma resolve_waveform_effective:
  "fst (resolve_waveform a ch s) = effective_waveform a ch s"
  by (auto simp: resolve_waveform_def effective_waveform_def split: option.splits sum.splits)

lemma effective_waveform_frame:
  "config_output s1 = config_output s \<Longrightarrow> effective_waveform a ch s1 = effective_waveform a ch s"
  by (simp add: effective_waveform_def split: option.splits)


lemma cached_config:
  "config_output s1 = config_output s \<Longrightarrow> cached s1 = cached s"
  by (simp add: cached_def fun_eq_iff)

lemma changed_config:
  "config_output s1 = config_output s \<Longrightarrow> changed s1 ch sts = changed s ch sts"
  using cached_config[of s1 s] by (simp add: changed_def)

lemma resolve_effective_state:
  assumes "resolve_waveform a ch (warn_channel channel s) = (r0, s1)"
  shows "effective_waveform a ch s = r0"
proof -
  have "fst (resolve_waveform a ch (warn_channel channel s)) = effective_waveform a ch (warn_channel channel s)"
    by (rule resolve_waveform_effective)
  moreover have "effective_waveform a ch (warn_channel channel s) = effective_waveform a ch s"
    by (rule effective_waveform_frame) simp
  ultimately show ?thesis using assms by simp
qed

lemma re_config_output_Inl:
  assumes "resolve_waveform a (coerce_channel channel s) (warn_channel channel s) = (Inl e, s1)"
  shows "re_config_output P T channel a s = (Inl e, s1)"
  by (subst re_config_output_plan) (simp add: assms)

lemma re_config_output_Inr:
  assumes "resolve_waveform a (coerce_channel channel s) (warn_channel channel s) = (Inr w, s1)"
  shows "re_config_output P T channel a s =
     run_steps T (print_changes a) (coerce_channel channel s)
       (gen_plan P (coerce_channel channel s) w a) s1"
  by (subst re_config_output_plan) (simp add: assms)

lemma filter_distinct_card:
  "distinct xs \<Longrightarrow> length (filter Q xs) = card {x \<in> set xs. Q x}"
proof -
  assume "distinct xs"
  then have "distinct (filter Q xs)" by simp
  then have "card (set (filter Q xs)) = length (filter Q xs)" by (rule distinct_card)
  then show ?thesis by simp
qed

lemma gen_plan_distinct: "distinct (gen_plan P ch w a)"
  using gen_plan_keys[of P ch w a] by (simp add: distinct_map)

lemma re_config_output_cases:
  assumes "re_config_output P T channel a s = (r, s')"
  obtains
    (unresolved) e where "effective_waveform a (coerce_channel channel s) s = Inl e"
      "r = Inl e" "e \<noteq> TransportError" "s' = warn_channel channel s"
  | (resolved) w s1 where "effective_waveform a (coerce_channel channel s) s = Inr w"
      "resolve_waveform a (coerce_channel channel s) (warn_channel channel s) = (Inr w, s1)"
      "run_steps T (print_changes a) (coerce_channel channel s)
         (gen_plan P (coerce_channel channel s) w a) s1 = (r, s')"
proof -
  obtain r0 s1 where 0: "resolve_waveform a (coerce_channel channel s) (warn_channel channel s) = (r0, s1)"
    by (cases "resolve_waveform a (coerce_channel channel s) (warn_channel channel s)")
  note eff = resolve_effective_state[OF 0]
  show thesis
  proof (cases r0)
    case (Inl e)
    from 0 Inl have 1: "resolve_waveform a (coerce_channel channel s) (warn_channel channel s) = (Inl e, s1)"
      by simp
    from resolve_waveform_error[OF 1] have "s1 = warn_channel channel s" "e \<noteq> TransportError"
      by simp_all
    moreover from assms re_config_output_Inl[OF 1, of P T] have "r = Inl e" "s' = s1"
      by simp_all
    moreover from eff Inl have "effective_waveform a (coerce_channel channel s) s = Inl e" by simp
    ultimately show thesis by (intro unresolved[of e]) simp_all
  next
    case (Inr w)
    from 0 Inr have 1: "resolve_waveform a (coerce_channel channel s) (warn_channel channel s) = (Inr w, s1)"
      by simp
    from assms re_config_output_Inr[OF 1, of P T]
    have "run_steps T (print_changes a) (coerce_channel channel s)
         (gen_plan P (coerce_channel channel s) w a) s1 = (r, s')" by simp
    moreover from eff Inr have "effective_waveform a (coerce_channel channel s) s = Inr w" by simp
    ultimately show thesis using 1 by (intro resolved[of w s1])
  qed
qed



lemma run_step_reliable:
  assumes "step_guard st = None" "cached s ch (step_key st) \<noteq> None" "\<forall>c d. vwrite T c d \<noteq> None"
  shows "\<exists>s1. run_step T pc ch st s = (Inr (), s1)"
proof -
  obtain r1 s1 where 1: "run_step T pc ch st s = (r1, s1)" by (cases "run_step T pc ch st s")
  from assms(3) have w: "vwrite T (step_cmd st) (dev s) \<noteq> None" by blast
  from 1 have "r1 = Inr ()"
    using assms(1,2) w by (cases rule: run_step_E) simp_all
  with 1 show ?thesis by simp
qed

text \<open>With a transport that accepts every write and a cache entry for every field of the
  plan, the outcome is decided by the first guarded step.\<close>

lemma run_steps_reliable:
  assumes "\<forall>c d. vwrite T c d \<noteq> None" "distinct (map step_key sts)"
    "\<forall>st\<in>set sts. step_guard st = None \<longrightarrow> cached s ch (step_key st) \<noteq> None"
  shows "fst (run_steps T pc ch sts s) = first_guard sts"
  using assms(2,3)
proof (induction sts arbitrary: s)
  case Nil
  then show ?case by simp
next
  case (Cons st sts)
  show ?case
  proof (cases "step_guard st")
    case (Some e)
    then show ?thesis by (simp add: run_step_def)
  next
    case None
    with Cons.prems have "cached s ch (step_key st) \<noteq> None" by simp
    from run_step_reliable[OF None this assms(1)] obtain s1
      where 1: "run_step T pc ch st s = (Inr (), s1)" by blast
    from Cons.prems have d: "distinct (map step_key sts)"
      and nk: "step_key st \<notin> step_key ` set sts" by simp_all
    have "\<forall>x\<in>set sts. cached s1 ch (step_key x) = cached s ch (step_key x)"
      using run_step_frame[OF 1] nk by (metis imageI)
    with Cons.prems have "\<forall>x\<in>set sts. step_guard x = None \<longrightarrow> cached s1 ch (step_key x) \<noteq> None"
      by simp
    from Cons.IH[OF d this] 1 None show ?thesis by simp
  qed
qed

lemma resolved_state:
  assumes "resolve_waveform a ch (warn_channel channel s) = (r0, s1)"
  shows "sent s1 = sent s" "asked s1 = asked s" "dev s1 = dev s" "nchannels s1 = nchannels s"
    "config_output s1 = config_output s" "cached s1 = cached s"
  using resolve_waveform_state[OF assms] by simp_all

text \<open>A call that returns: one write per differing field of the plan, in plan order.\<close>

lemma gen_completed_call:
  assumes "re_config_output P T channel a s = (Inr (), s')"
  shows "\<exists>w. effective_waveform a (coerce_channel channel s) s = Inr w
     \<and> sent s' = sent s @ map step_cmd
          (changed s (coerce_channel channel s) (gen_plan P (coerce_channel channel s) w a))
     \<and> (\<forall>st\<in>set (gen_plan P (coerce_channel channel s) w a).
           cached s' (coerce_channel channel s) (step_key st) = Some (step_value st))
     \<and> (\<forall>c k. c \<noteq> coerce_channel channel s
             \<or> k \<notin> step_key ` set (changed s (coerce_channel channel s)
                                      (gen_plan P (coerce_channel channel s) w a))
           \<longrightarrow> cached s' c k = cached s c k)"
  using assms
proof (cases rule: re_config_output_cases)
  case (unresolved e)
  then show ?thesis by simp
next
  case (resolved w s1)
  define ch where "ch = coerce_channel channel s"
  define plan where "plan = gen_plan P ch w a"
  note st = resolved_state[OF resolved(2)]
  from resolved(3) have run: "run_steps T (print_changes a) ch plan s1 = (Inr (), s')"
    by (simp add: ch_def plan_def)
  have keys: "distinct (map step_key plan)" by (simp add: plan_def gen_plan_keys)
  note ok = run_steps_ok[OF run keys]
  have ch1: "changed s1 ch plan = changed s ch plan" using st(5) by (rule changed_config)
  have a: "sent s' = sent s @ map step_cmd (changed s ch plan)"
    using ok ch1 st(1) by simp
  have b: "\<forall>st\<in>set plan. cached s' ch (step_key st) = Some (step_value st)"
    using ok by simp
  have c: "\<forall>c k. c \<noteq> ch \<or> k \<notin> step_key ` set (changed s ch plan) \<longrightarrow> cached s' c k = cached s c k"
  proof (intro allI impI)
    fix c k
    assume h: "c \<noteq> ch \<or> k \<notin> step_key ` set (changed s ch plan)"
    show "cached s' c k = cached s c k"
    proof (cases "c \<noteq> ch \<or> k \<notin> step_key ` set plan")
      case True
      with run_steps_frame[OF run, of c k] st(6) show ?thesis by simp
    next
      case False
      then obtain x where x: "x \<in> set plan" "step_key x = k" and c: "c = ch" by auto
      with h have "x \<notin> set (changed s ch plan)" by auto
      with x have "cached s ch k = Some (step_value x)" by (simp add: changed_def)
      moreover from b x have "cached s' ch k = Some (step_value x)" by auto
      ultimately show ?thesis using c by simp
    qed
  qed
  from resolved(1) a b c show ?thesis
    unfolding plan_def ch_def by blast
qed


lemma resolve_from_effective:
  assumes "effective_waveform a ch s = r0"
  shows "\<exists>s1. resolve_waveform a ch (warn_channel channel s) = (r0, s1)"
proof -
  obtain r1 s1 where 1: "resolve_waveform a ch (warn_channel channel s) = (r1, s1)"
    by (cases "resolve_waveform a ch (warn_channel channel s)")
  from resolve_effective_state[OF 1] assms have "r1 = r0" by simp
  with 1 show ?thesis by blast
qed


text \<open>Effect of any call on the cache and on the command log.\<close>

lemma gen_call_effect:
  assumes "re_config_output P T channel a s = (r, s')"
    and "effective_waveform a (coerce_channel channel s) s = Inr w"
  shows "\<exists>pre post. gen_plan P (coerce_channel channel s) w a = pre @ post
     \<and> (r = Inr () \<longrightarrow> post = [])
     \<and> (\<forall>p\<in>set pre. cached s' (coerce_channel channel s) (step_key p) = Some (step_value p)
                      \<and> step_guard p = None)
     \<and> (\<forall>q\<in>set post. cached s' (coerce_channel channel s) (step_key q)
                        = cached s (coerce_channel channel s) (step_key q))
     \<and> sent s' = sent s @ map step_cmd (changed s (coerce_channel channel s) pre)
                   @ (if r = Inl TransportError then [step_cmd (hd post)] else [])
     \<and> (r = Inl TransportError \<longrightarrow> post \<noteq> []
            \<and> vwrite T (step_cmd (hd post)) (dev s') = None
            \<and> cached s (coerce_channel channel s) (step_key (hd post)) \<noteq> Some (step_value (hd post))
            \<and> step_guard (hd post) = None)"
  using assms(1)
proof (cases rule: re_config_output_cases)
  case (unresolved e)
  with assms(2) show ?thesis by simp
next
  case (resolved w' s0)
  with assms(2) have w: "w' = w" by simp
  define ch where "ch = coerce_channel channel s"
  note st0 = resolved_state[OF resolved(2)]
  from resolved(3) w have run: "run_steps T (print_changes a) ch (gen_plan P ch w a) s0 = (r, s')"
    by (simp add: ch_def)
  from run_steps_effect[OF run gen_plan_keys gen_plan_guards]
  obtain pre post where e: "gen_plan P ch w a = pre @ post"
     "r = Inr () \<longrightarrow> post = []"
     "\<forall>p\<in>set pre. cached s' ch (step_key p) = Some (step_value p) \<and> step_guard p = None"
     "\<forall>q\<in>set post. cached s' ch (step_key q) = cached s0 ch (step_key q)"
     "sent s' = sent s0 @ map step_cmd (changed s0 ch pre)
                   @ (if r = Inl TransportError then [step_cmd (hd post)] else [])"
     "r = Inl TransportError \<longrightarrow> post \<noteq> []
            \<and> vwrite T (step_cmd (hd post)) (dev s') = None
            \<and> cached s0 ch (step_key (hd post)) \<noteq> Some (step_value (hd post))
            \<and> step_guard (hd post) = None"
    by blast
  have "changed s0 ch pre = changed s ch pre" using st0(5) by (rule changed_config)
  with e st0(1,6) show ?thesis unfolding ch_def
    by (intro exI[of _ pre] exI[of _ post]) simp
qed

lemma gen_unresolved:
  assumes "re_config_output P T channel a s = (r, s')"
    and "effective_waveform a (coerce_channel channel s) s = Inl e"
  shows "r = Inl e \<and> sent s' = sent s \<and> config_output s' = config_output s \<and> asked s' = asked s"
  using assms(1)
proof (cases rule: re_config_output_cases)
  case (unresolved e')
  with assms(2) show ?thesis by simp
next
  case (resolved w s0)
  with assms(2) show ?thesis by simp
qed

lemma gen_no_query:
  assumes "re_config_output P T channel a s = (r, s')"
  shows "asked s' = asked s"
  using assms
proof (cases rule: re_config_output_cases)
  case (unresolved e)
  then show ?thesis by simp
next
  case (resolved w s0)
  from run_steps_frame[OF resolved(3), of 0 "''none''"] resolved_state[OF resolved(2)]
  show ?thesis by simp
qed


lemma first_guard_append:
  "first_guard (xs @ ys) = (case first_guard xs of Inl e \<Rightarrow> Inl e | Inr u \<Rightarrow> first_guard ys)"
  by (induction xs) (simp_all split: option.splits)

lemma first_guard_given:
  "first_guard (given arg f) =
     (case arg of None \<Rightarrow> Inr () | Some x \<Rightarrow> (case step_guard (f x) of Some e \<Rightarrow> Inl e | None \<Rightarrow> Inr ()))"
  by (simp add: given_def split: option.splits)

lemma gen_plan_first_guard: "first_guard (gen_plan P ch w a) = gating w a"
  by (simp add: gen_plan_def first_guard_append first_guard_given gating_def split: option.splits)

text \<open>With a reliable transport and cached entries, the outcome is the validity check's.\<close>

lemma gen_reliable_outcome:
  assumes "reliable T"
    and eff: "effective_waveform a (coerce_channel channel s) s = Inr w"
    and ent: "entries_cached s (coerce_channel channel s) (gen_plan P (coerce_channel channel s) w a)"
  shows "fst (re_config_output P T channel a s) = gating w a"
proof -
  define ch where "ch = coerce_channel channel s"
  from resolve_from_effective[OF eff, of channel] obtain s0
    where 0: "resolve_waveform a ch (warn_channel channel s) = (Inr w, s0)"
    unfolding ch_def by blast
  note st0 = resolved_state[OF 0]
  have rel: "\<forall>c d. vwrite T c d \<noteq> None" using assms(1) by (simp add: reliable_def)
  have "\<forall>st\<in>set (gen_plan P ch w a). step_guard st = None \<longrightarrow> cached s0 ch (step_key st) \<noteq> None"
    using ent st0(6) unfolding ch_def entries_cached_def list_all_iff by auto
  from run_steps_reliable[OF rel gen_plan_keys this, of "print_changes a"]
  have "fst (run_steps T (print_changes a) ch (gen_plan P ch w a) s0) = gating w a"
    by (simp add: gen_plan_first_guard)
  with re_config_output_Inr[of a channel s w s0 P T] 0 show ?thesis
    by (simp add: ch_def)
qed

lemma gating_both:
  assumes "duty_cycle a \<noteq> None" "symmetry a \<noteq> None"
  shows "gating w a = Inl (if w \<noteq> PStr ''PULS'' then duty_cycle_error else symmetry_error)"
  using assms by (simp add: gating_def)

text \<open>A call that supplies both duty cycle and symmetry never returns normally.\<close>

lemma gen_both_never_returns:
  assumes "duty_cycle a = Some x" "symmetry a = Some y"
  shows "fst (re_config_output P T channel a s) \<noteq> Inr ()"
proof -
  obtain r s' where call: "re_config_output P T channel a s = (r, s')"
    by (cases "re_config_output P T channel a s")
  from call have "r \<noteq> Inr ()"
  proof (cases rule: re_config_output_cases)
    case (unresolved e)
    then show ?thesis by simp
  next
    case (resolved w s0)
    define ch where "ch = coerce_channel channel s"
    define g where "g = (if w \<noteq> PStr ''PULS'' then duty_cycle_step P ch w x else symmetry_step P ch w y)"
    have "g \<in> set (gen_plan P ch w a)"
      using assms by (simp add: g_def gen_plan_def set_given)
    moreover have "step_guard g \<noteq> None" by (simp add: g_def)
    ultimately have "fst (run_steps T (print_changes a) ch (gen_plan P ch w a) s0) \<noteq> Inr ()"
      by (rule run_steps_guarded)
    with resolved(3) show ?thesis by (simp add: ch_def)
  qed
  with call show ?thesis by simp
qed


lemma osci_warn_fields [simp]:
  "sent (osci_warn_channel channel s) = sent s"
  "asked (osci_warn_channel channel s) = asked s"
  "dev (osci_warn_channel channel s) = dev s"
  "config_measure (osci_warn_channel channel s) = config_measure s"
  by (simp_all add: osci_warn_channel_def py_print_def)


lemma set_source_effect:
  assumes "set_source T ch s = (r, s1)"
  shows "config_measure s1 = config_measure s \<and> asked s1 = asked s
     \<and> (r = Inr () \<longrightarrow> sent s1 = sent s @ (if Source (config_measure s) \<noteq> of_int ch
                                               then [''MEASU:IMM:SOU CH'' @ str_int ch] else []))
     \<and> (r \<noteq> Inr () \<longrightarrow> r = Inl TransportError \<and> Source (config_measure s) \<noteq> of_int ch
            \<and> sent s1 = sent s @ [''MEASU:IMM:SOU CH'' @ str_int ch])"
  using assms
  by (auto simp: set_source_def and_then_def visa_write_def py_print_def
      split: if_splits option.splits)

lemma set_type_effect:
  assumes "set_type T aux s = (r, s1)"
  shows "config_measure s1 = config_measure s \<and> asked s1 = asked s
     \<and> (r = Inr () \<longrightarrow> sent s1 = sent s @ (if Type (config_measure s) \<noteq> aux
                                               then [''MEASU:IMM:TYP '' @ aux] else []))
     \<and> (r \<noteq> Inr () \<longrightarrow> r = Inl TransportError \<and> Type (config_measure s) \<noteq> aux
            \<and> sent s1 = sent s @ [''MEASU:IMM:TYP '' @ aux])"
  using assms
  by (auto simp: set_type_def and_then_def visa_write_def py_print_def
      split: if_splits option.splits)

lemma refresh_measure_effect:
  assumes "refresh_measure P T s = (r, s1)"
  shows "sent s1 = sent s
     \<and> (r = Inr () \<longrightarrow>
          asked s1 = asked s @ [''MEASU:IMM:SOU?'', ''MEASU:IMM:TYP?'']
          \<and> (\<exists>rs d rt x. vquery T ''MEASU:IMM:SOU?'' (dev s) = Some (rs, d)
                \<and> find_1st_number P rs = Some x
                \<and> vquery T ''MEASU:IMM:TYP?'' d = Some (rt, dev s1)
                \<and> config_measure s1 = \<lparr>Source = x, Type = rt\<rparr>))
     \<and> (r \<noteq> Inr () \<longrightarrow> config_measure s1 = config_measure s)"
  using assms
  by (auto simp: refresh_measure_def get_config_measure_def and_then_def visa_query_def
      parse_number_def return_def raise_def split: option.splits prod.splits sum.splits)

lemma osci_unrecognised:
  assumes "normalize_mtype mtype = (Inl e, warn)"
  shows "re_config_measure P T mtype channel s
           = (Inl e, (osci_warn_channel channel s)\<lparr>out := out (osci_warn_channel channel s) @ warn\<rparr>)"
  using assms by (simp add: re_config_measure_def Let_def)

text \<open>Effect of a call of \<open>re_config_measure\<close> whose measurement type is recognised.\<close>

lemma osci_call_effect:
  assumes norm: "normalize_mtype mtype = (Inr aux, warn)"
    and call: "re_config_measure P T mtype channel s = (r, s')"
  shows "(\<exists>ws. prefix ws (osci_writes s (osci_channel channel) aux) \<and> sent s' = sent s @ ws)
     \<and> (r = Inr () \<longrightarrow>
          sent s' = sent s @ osci_writes s (osci_channel channel) aux
          \<and> asked s' = asked s @ [''MEASU:IMM:SOU?'', ''MEASU:IMM:TYP?'']
          \<and> (\<exists>d0 rs d rt x. vquery T ''MEASU:IMM:SOU?'' d0 = Some (rs, d)
                \<and> find_1st_number P rs = Some x
                \<and> vquery T ''MEASU:IMM:TYP?'' d = Some (rt, dev s')
                \<and> config_measure s' = \<lparr>Source = x, Type = rt\<rparr>))"
proof -
  define ch where "ch = osci_channel channel"
  define s0 where "s0 = (osci_warn_channel channel s)\<lparr>out := out (osci_warn_channel channel s) @ warn\<rparr>"
  have s0: "sent s0 = sent s" "asked s0 = asked s" "config_measure s0 = config_measure s"
    by (simp_all add: s0_def)
  obtain r1 s1 where 1: "set_source T ch s0 = (r1, s1)" by (cases "set_source T ch s0")
  note e1 = set_source_effect[OF 1]
  have w: "osci_writes s ch aux =
      (if Source (config_measure s) \<noteq> of_int ch then [''MEASU:IMM:SOU CH'' @ str_int ch] else [])
      @ (if Type (config_measure s) \<noteq> aux then [''MEASU:IMM:TYP '' @ aux] else [])"
    by (simp add: osci_writes_def)
  show ?thesis
  proof (cases "r1 = Inr ()")
    case False
    with call norm 1 have "r = r1" "s' = s1"
      by (auto simp: re_config_measure_def Let_def and_then_def ch_def s0_def split: sum.splits)
    with e1 False s0 show ?thesis unfolding ch_def[symmetric] w by auto
  next
    case True
    obtain r2 s2 where 2: "set_type T aux s1 = (r2, s2)" by (cases "set_type T aux s1")
    note e2 = set_type_effect[OF 2]
    show ?thesis
    proof (cases "r2 = Inr ()")
      case False
      with call norm 1 2 True have "r = r2" "s' = s2"
        by (auto simp: re_config_measure_def Let_def and_then_def ch_def s0_def split: sum.splits)
      with e1 e2 True False s0 show ?thesis unfolding ch_def[symmetric] w by auto
    next
      case r2: True
      from call norm 1 2 True r2 have 3: "refresh_measure P T s2 = (r, s')"
        by (auto simp: re_config_measure_def Let_def and_then_def ch_def s0_def split: sum.splits)
      note e3 = refresh_measure_effect[OF 3]
      from e1 e2 e3 True r2 s0 have a: "sent s' = sent s @ osci_writes s ch aux"
        unfolding w by simp
      from e1 e2 e3 s0 have b: "r = Inr () \<longrightarrow> asked s' = asked s @ [''MEASU:IMM:SOU?'', ''MEASU:IMM:TYP?'']"
        by simp
      from e3 have c: "r = Inr () \<longrightarrow> (\<exists>d0 rs d rt x. vquery T ''MEASU:IMM:SOU?'' d0 = Some (rs, d)
                \<and> find_1st_number P rs = Some x
                \<and> vquery T ''MEASU:IMM:TYP?'' d = Some (rt, dev s')
                \<and> config_measure s' = \<lparr>Source = x, Type = rt\<rparr>)"
        by blast
      from a b c show ?thesis unfolding ch_def[symmetric] by auto
    qed
  qed
qed

lemmas gen_eval =
  re_config_output_def and_then_def resolve_waveform_def run_step_def when_given_def
  waveform_step_def frequency_step_def amplitude_step_def offset_step_def phase_step_def
  duty_cycle_step_def symmetry_step_def coerce_channel_def warn_channel_def
  normalize_waveform_def gen_dic_def lower_def lower_char_def cache_get_def cache_put_def
  return_def raise_def visa_write_def py_print_def default_args_def omitted_def
  demo_gen_def demo_channel_def demo_py_def demo_afg_def dead_link_def flaky_afg_def
  str_int_def str_nat.simps digit_char_def cached_def

lemmas osci_eval =
  re_config_measure_def Let_def and_then_def set_source_def set_type_def refresh_measure_def
  get_config_measure_def osci_channel_def osci_warn_channel_def normalize_mtype_def
  osci_dic_def dic_get_def lower_def lower_char_def parse_number_def
  return_def raise_def visa_write_def visa_query_def py_print_def
  demo_osci_def scope_device_def long_form_def demo_py_def
  str_int_def str_nat.simps digit_char_def

text \<open>
  Claim C2 (the code at the failing input). \<open>Osci.re_config_measure('zzz', channel)\<close>: no key
  of the table occurs in \<open>'zzz'\<close>, so the loop never binds \<open>aux\<close> and the test
  \<open>aux not in dic.values()\<close> raises \<open>UnboundLocalError\<close>; the default \<open>'FREQ'\<close> is never
  applied, nothing is written to the device and nothing is queried. (For the waveform the
  default is applied, see \<open>waveform_default\<close>.)
\<close>

theorem unrecognised_measure_type_unbound:
  "fst (re_config_measure P T ''zzz'' channel s) = Inl (UnboundLocalError ''aux'')
   \<and> sent (snd (re_config_measure P T ''zzz'' channel s)) = sent s
   \<and> asked (snd (re_config_measure P T ''zzz'' channel s)) = asked s"
proof -
  have "normalize_mtype ''zzz'' = (Inl (UnboundLocalError ''aux''), [])"
    by (simp add: normalize_mtype_def osci_dic_def lower_def lower_char_def)
  from osci_unrecognised[OF this, of P T channel s] show ?thesis by simp
qed




text \<open>
  Claim C9 (as amended). A call of \<open>Gen.re_config_output\<close> with both \<open>duty_cycle\<close> and
  \<open>symmetry\<close> not \<open>None\<close> never returns normally, whatever the other arguments, the cache
  and the transport are, because the effective waveform cannot be both \<open>'PULS'\<close> and
  \<open>'RAMP'\<close>. When every write is accepted and the supplied fields that pass their validity
  check have cache entries, the exception is the \<open>ValueError\<close> of the first failing check: the
  duty-cycle one unless the waveform is \<open>'PULS'\<close>, the symmetry one otherwise.
\<close>

theorem both_duty_cycle_and_symmetry:
  assumes "duty_cycle a \<noteq> None" "symmetry a \<noteq> None"
  shows "fst (re_config_output P T channel a s) \<noteq> Inr ()
     \<and> (reliable T \<and> effective_waveform a (coerce_channel channel s) s = Inr w
          \<and> entries_cached s (coerce_channel channel s) (gen_plan P (coerce_channel channel s) w a)
        \<longrightarrow> fst (re_config_output P T channel a s)
              = Inl (if w \<noteq> PStr ''PULS'' then duty_cycle_error else symmetry_error))"
proof -
  from assms obtain x y where xy: "duty_cycle a = Some x" "symmetry a = Some y" by auto
  from gen_both_never_returns[OF xy] have "fst (re_config_output P T channel a s) \<noteq> Inr ()" .
  moreover have "reliable T \<and> effective_waveform a (coerce_channel channel s) s = Inr w
          \<and> entries_cached s (coerce_channel channel s) (gen_plan P (coerce_channel channel s) w a)
        \<longrightarrow> fst (re_config_output P T channel a s)
              = Inl (if w \<noteq> PStr ''PULS'' then duty_cycle_error else symmetry_error)"
    using gen_reliable_outcome[of T a channel s w P] gating_both[OF assms, of w] by auto
  ultimately show ?thesis by blast
qed

lemma demo_entries:
  "entries_cached demo_gen 1 (gen_plan demo_py 1 w a)"
  by (simp add: entries_cached_def gen_plan_def given_def cached_def demo_gen_def
      demo_channel_def split: option.splits)

lemma demo_reliable: "reliable demo_afg"
  by (simp add: reliable_def demo_afg_def)

theorem both_duty_cycle_and_symmetry_witness:
  "duty_cycle default_args \<noteq> None \<and> symmetry default_args \<noteq> None
   \<and> reliable demo_afg
   \<and> effective_waveform default_args (coerce_channel 1 demo_gen) demo_gen = Inr (PStr ''SIN'')
   \<and> entries_cached demo_gen (coerce_channel 1 demo_gen)
        (gen_plan demo_py (coerce_channel 1 demo_gen) (PStr ''SIN'') default_args)
   \<and> fst (re_config_output demo_py demo_afg 1 default_args demo_gen) = Inl duty_cycle_error"
proof -
  have h: "duty_cycle default_args \<noteq> None" "symmetry default_args \<noteq> None"
    by (simp_all add: default_args_def)
  have c: "coerce_channel 1 demo_gen = 1" by (simp add: coerce_channel_def demo_gen_def)
  have e: "effective_waveform default_args 1 demo_gen = Inr (PStr ''SIN'')"
    by (simp add: effective_waveform_def default_args_def normalize_waveform_def gen_dic_def
        lower_def lower_char_def)
  from both_duty_cycle_and_symmetry[OF h, of demo_py demo_afg 1 demo_gen "PStr ''SIN''"]
    h c e demo_entries demo_reliable
  show ?thesis by simp
qed

text \<open>
  The claim as stated ("raises ValueError regardless of the other arguments") fails when an
  earlier step of the same call raises first: with a transport that rejects the frequency
  write, the call with both fields set ends in the transport error.
\<close>

theorem both_fields_other_error_counterexample:
  "duty_cycle (default_args\<lparr>frequency := Some 2000\<rparr>) \<noteq> None
   \<and> symmetry (default_args\<lparr>frequency := Some 2000\<rparr>) \<noteq> None
   \<and> fst (re_config_output demo_py dead_link 1 (default_args\<lparr>frequency := Some 2000\<rparr>) demo_gen)
       = Inl TransportError"
  by (simp add: gen_eval)


text \<open>The converse direction: a rejected write ends the run with the transport error, and
  the state is the one reached by the earlier steps plus the logged attempt.\<close>

lemma run_steps_rejected:
  assumes "run_steps T pc ch pre s = (Inr (), s1)" "step_guard st = None"
    "cached s1 ch (step_key st) = Some old" "old \<noteq> step_value st"
    "vwrite T (step_cmd st) (dev s1) = None"
  shows "run_steps T pc ch (pre @ st # post) s
           = (Inl TransportError, s1\<lparr>sent := sent s1 @ [step_cmd st]\<rparr>)"
proof -
  from assms(3) have "cache_get ch (step_key st) (config_output s1) = Inr old"
    by (simp add: cache_get_cached)
  with assms(2,4,5) have "run_step T pc ch st s1
           = (Inl TransportError, s1\<lparr>sent := sent s1 @ [step_cmd st]\<rparr>)"
    by (simp add: run_step_def visa_write_def)
  with assms(1) show ?thesis by (simp add: run_steps_append)
qed


lemma osci_returned_recognised:
  assumes "re_config_measure P T mtype channel s = (Inr (), s')"
  obtains aux warn where "normalize_mtype mtype = (Inr aux, warn)"
proof -
  obtain r0 warn where 0: "normalize_mtype mtype = (r0, warn)" by (cases "normalize_mtype mtype")
  show thesis
  proof (cases r0)
    case (Inl e)
    with 0 osci_unrecognised[of mtype e warn P T channel s] assms show thesis by simp
  next
    case (Inr aux)
    with 0 show thesis by (intro that[of aux warn]) simp
  qed
qed

text \<open>
  Claim C5 (as amended). For every call that returns normally: \<open>Gen.re_config_output\<close> sends
  exactly one write command for each supplied field whose value differs from the cached one,
  in the declared order of the fields (which are pairwise distinct), so k differing fields
  give exactly k commands; afterwards every supplied field holds its requested value, and
  every cache entry that did not differ, was not supplied (\<open>None\<close>) or belongs to another
  channel is as before. \<open>Osci.re_config_measure\<close> sends one command for the source if it
  differs and one for the type if it differs, and nothing else.
\<close>

theorem minimal_writes:
  "(re_config_output P T channel a g = (Inr (), g') \<longrightarrow>
      (\<exists>w. effective_waveform a (coerce_channel channel g) g = Inr w
         \<and> distinct (map step_key (gen_plan P (coerce_channel channel g) w a))
         \<and> sent g' = sent g @ map step_cmd
              (changed g (coerce_channel channel g) (gen_plan P (coerce_channel channel g) w a))
         \<and> length (sent g') = length (sent g)
              + card {st \<in> set (gen_plan P (coerce_channel channel g) w a).
                        cached g (coerce_channel channel g) (step_key st) \<noteq> Some (step_value st)}
         \<and> (\<forall>st\<in>set (gen_plan P (coerce_channel channel g) w a).
               cached g' (coerce_channel channel g) (step_key st) = Some (step_value st))
         \<and> (\<forall>c k. c \<noteq> coerce_channel channel g
                 \<or> k \<notin> step_key ` set (changed g (coerce_channel channel g)
                                          (gen_plan P (coerce_channel channel g) w a))
               \<longrightarrow> cached g' c k = cached g c k)))
   \<and> (re_config_measure P T' mtype channel' s = (Inr (), s') \<longrightarrow>
      (\<exists>aux. fst (normalize_mtype mtype) = Inr aux
         \<and> sent s' = sent s @ osci_writes s (osci_channel channel') aux))"
proof (intro conjI impI)
  assume call: "re_config_output P T channel a g = (Inr (), g')"
  define ch where "ch = coerce_channel channel g"
  from gen_completed_call[OF call] obtain w where w:
    "effective_waveform a ch g = Inr w"
    "sent g' = sent g @ map step_cmd (changed g ch (gen_plan P ch w a))"
    "\<forall>st\<in>set (gen_plan P ch w a). cached g' ch (step_key st) = Some (step_value st)"
    "\<forall>c k. c \<noteq> ch \<or> k \<notin> step_key ` set (changed g ch (gen_plan P ch w a))
           \<longrightarrow> cached g' c k = cached g c k"
    unfolding ch_def by blast
  have "length (changed g ch (gen_plan P ch w a))
      = card {st \<in> set (gen_plan P ch w a). cached g ch (step_key st) \<noteq> Some (step_value st)}"
    unfolding changed_def by (rule filter_distinct_card) (rule gen_plan_distinct)
  with w(2) have "length (sent g') = length (sent g)
      + card {st \<in> set (gen_plan P ch w a). cached g ch (step_key st) \<noteq> Some (step_value st)}"
    by simp
  with w gen_plan_keys[of P ch w a]
  show "\<exists>w. effective_waveform a (coerce_channel channel g) g = Inr w
         \<and> distinct (map step_key (gen_plan P (coerce_channel channel g) w a))
         \<and> sent g' = sent g @ map step_cmd
              (changed g (coerce_channel channel g) (gen_plan P (coerce_channel channel g) w a))
         \<and> length (sent g') = length (sent g)
              + card {st \<in> set (gen_plan P (coerce_channel channel g) w a).
                        cached g (coerce_channel channel g) (step_key st) \<noteq> Some (step_value st)}
         \<and> (\<forall>st\<in>set (gen_plan P (coerce_channel channel g) w a).
               cached g' (coerce_channel channel g) (step_key st) = Some (step_value st))
         \<and> (\<forall>c k. c \<noteq> coerce_channel channel g
                 \<or> k \<notin> step_key ` set (changed g (coerce_channel channel g)
                                          (gen_plan P (coerce_channel channel g) w a))
               \<longrightarrow> cached g' c k = cached g c k)"
    unfolding ch_def by blast
next
  assume call: "re_config_measure P T' mtype channel' s = (Inr (), s')"
  from call obtain aux warn where n: "normalize_mtype mtype = (Inr aux, warn)"
    by (rule osci_returned_recognised)
  from osci_call_effect[OF n call] have "sent s' = sent s @ osci_writes s (osci_channel channel') aux"
    by simp
  with n show "\<exists>aux. fst (normalize_mtype mtype) = Inr aux
         \<and> sent s' = sent s @ osci_writes s (osci_channel channel') aux" by auto
qed

text \<open>
  The claim as stated fails where the validity check raises: with cached waveform
  \<open>'SIN'\<close> and cached duty cycle 50, the call that supplies only \<open>duty_cycle=75\<close> differs
  from the cache in exactly one field and sends no command at all.
\<close>

theorem gated_field_counterexample:
  "cached demo_gen 1 ''Duty Cycle'' = Some (PNum 50)
   \<and> fst (re_config_output demo_py demo_afg 1 (omitted\<lparr>duty_cycle := Some 75\<rparr>) demo_gen)
       = Inl duty_cycle_error
   \<and> sent (snd (re_config_output demo_py demo_afg 1 (omitted\<lparr>duty_cycle := Some 75\<rparr>) demo_gen))
       = []"
  by (simp add: gen_eval duty_cycle_error_def)

theorem minimal_writes_witness:
  "fst (re_config_output demo_py demo_afg 1
          (omitted\<lparr>waveform := Some ''squ'', duty_cycle := Some 75\<rparr>) demo_gen) = Inr ()
   \<and> sent (snd (re_config_output demo_py demo_afg 1
          (omitted\<lparr>waveform := Some ''squ'', duty_cycle := Some 75\<rparr>) demo_gen))
       = [''SOUR1:FUNC:SHAP PULS'', ''SOUR1:PULS:DCYC 75.0'']
   \<and> fst (re_config_measure demo_py (scope_device id) ''min'' 2 (demo_osci ''FREQ'')) = Inr ()
   \<and> sent (snd (re_config_measure demo_py (scope_device id) ''min'' 2 (demo_osci ''FREQ'')))
       = [''MEASU:IMM:SOU CH2'', ''MEASU:IMM:TYP MINI'']
   \<and> osci_writes (demo_osci ''FREQ'') (osci_channel 2) ''MINI''
       = [''MEASU:IMM:SOU CH2'', ''MEASU:IMM:TYP MINI'']
   \<and> (\<exists>w. distinct (map step_key (gen_plan demo_py 1 w
                (omitted\<lparr>waveform := Some ''squ'', duty_cycle := Some 75\<rparr>)))
         \<and> length (sent (snd (re_config_output demo_py demo_afg 1
              (omitted\<lparr>waveform := Some ''squ'', duty_cycle := Some 75\<rparr>) demo_gen)))
            = length (sent demo_gen)
              + card {st \<in> set (gen_plan demo_py 1 w
                                  (omitted\<lparr>waveform := Some ''squ'', duty_cycle := Some 75\<rparr>)).
                        cached demo_gen 1 (step_key st) \<noteq> Some (step_value st)})"
proof -
  define a where "a = omitted\<lparr>waveform := Some ''squ'', duty_cycle := Some 75\<rparr>"
  define cg where "cg = re_config_output demo_py demo_afg 1 a demo_gen"
  define co where "co = re_config_measure demo_py (scope_device id) ''min'' 2 (demo_osci ''FREQ'')"
  have g1: "fst cg = Inr ()" unfolding cg_def a_def by (simp add: gen_eval)
  have g2: "sent (snd cg) = [''SOUR1:FUNC:SHAP PULS'', ''SOUR1:PULS:DCYC 75.0'']"
    unfolding cg_def a_def by (simp add: gen_eval)
  have o1: "fst co = Inr ()" unfolding co_def by (simp add: osci_eval)
  have o2: "sent (snd co) = [''MEASU:IMM:SOU CH2'', ''MEASU:IMM:TYP MINI'']"
    unfolding co_def by (simp add: osci_eval)
  have o3: "osci_writes (demo_osci ''FREQ'') (osci_channel 2) ''MINI''
       = [''MEASU:IMM:SOU CH2'', ''MEASU:IMM:TYP MINI'']"
    by (simp add: osci_writes_def osci_channel_def demo_osci_def str_int_def str_nat.simps
        digit_char_def)
  from g1 have rg: "re_config_output demo_py demo_afg 1 a demo_gen = (Inr (), snd cg)"
    unfolding cg_def by (metis prod.collapse)
  from o1 have ro: "re_config_measure demo_py (scope_device id) ''min'' 2 (demo_osci ''FREQ'')
      = (Inr (), snd co)"
    unfolding co_def by (metis prod.collapse)
  have ch: "coerce_channel 1 demo_gen = 1" by (simp add: coerce_channel_def demo_gen_def)
  from minimal_writes[of demo_py demo_afg 1 a demo_gen "snd cg" "scope_device id" "''min''" 2
      "demo_osci ''FREQ''" "snd co"] rg ro
  have "\<exists>w. distinct (map step_key (gen_plan demo_py 1 w a))
         \<and> length (sent (snd cg)) = length (sent demo_gen)
              + card {st \<in> set (gen_plan demo_py 1 w a).
                        cached demo_gen 1 (step_key st) \<noteq> Some (step_value st)}"
    unfolding ch by blast
  with g1 g2 o1 o2 o3 show ?thesis unfolding cg_def co_def a_def by blast
qed




text \<open>
  Claim C4 (as amended). \<open>Gen.re_config_output\<close> is write-through and never queries: whatever
  the outcome of a call, no query is sent, the fields up to the point where the call stopped
  hold their requested values in the cache, the commands sent are those of the fields among
  them that differed (followed by the rejected command if the transport failed), and the
  later fields are untouched. \<open>Osci.re_config_measure\<close> does not store the written values:
  a call that returns has queried the device for source and type after its writes and
  replaced the whole cache by the answers.
\<close>

theorem cache_refresh_policy:
  "(re_config_output P T channel a g = (r, g') \<longrightarrow>
      asked g' = asked g
      \<and> (\<forall>w. effective_waveform a (coerce_channel channel g) g = Inr w \<longrightarrow>
           (\<exists>pre post. gen_plan P (coerce_channel channel g) w a = pre @ post
              \<and> sent g' = sent g @ map step_cmd (changed g (coerce_channel channel g) pre)
                    @ (if r = Inl TransportError then [step_cmd (hd post)] else [])
              \<and> (\<forall>p\<in>set pre. cached g' (coerce_channel channel g) (step_key p)
                                 = Some (step_value p))
              \<and> (\<forall>q\<in>set post. cached g' (coerce_channel channel g) (step_key q)
                                  = cached g (coerce_channel channel g) (step_key q)))))
   \<and> (re_config_measure P T' mtype channel' s = (Inr (), s') \<longrightarrow>
      asked s' = asked s @ [''MEASU:IMM:SOU?'', ''MEASU:IMM:TYP?'']
      \<and> (\<exists>d0 rs d rt x. vquery T' ''MEASU:IMM:SOU?'' d0 = Some (rs, d)
            \<and> find_1st_number P rs = Some x
            \<and> vquery T' ''MEASU:IMM:TYP?'' d = Some (rt, dev s')
            \<and> config_measure s' = \<lparr>Source = x, Type = rt\<rparr>))"
proof (intro conjI impI allI)
  assume call: "re_config_output P T channel a g = (r, g')"
  then show "asked g' = asked g" by (rule gen_no_query)
next
  fix w
  assume call: "re_config_output P T channel a g = (r, g')"
    and eff: "effective_waveform a (coerce_channel channel g) g = Inr w"
  from gen_call_effect[OF call eff]
  show "\<exists>pre post. gen_plan P (coerce_channel channel g) w a = pre @ post
              \<and> sent g' = sent g @ map step_cmd (changed g (coerce_channel channel g) pre)
                    @ (if r = Inl TransportError then [step_cmd (hd post)] else [])
              \<and> (\<forall>p\<in>set pre. cached g' (coerce_channel channel g) (step_key p)
                                 = Some (step_value p))
              \<and> (\<forall>q\<in>set post. cached g' (coerce_channel channel g) (step_key q)
                                  = cached g (coerce_channel channel g) (step_key q))"
    by blast
next
  assume call: "re_config_measure P T' mtype channel' s = (Inr (), s')"
  from call obtain aux warn where n: "normalize_mtype mtype = (Inr aux, warn)"
    by (rule osci_returned_recognised)
  from osci_call_effect[OF n call]
  show "asked s' = asked s @ [''MEASU:IMM:SOU?'', ''MEASU:IMM:TYP?'']"
    and "\<exists>d0 rs d rt x. vquery T' ''MEASU:IMM:SOU?'' d0 = Some (rs, d)
            \<and> find_1st_number P rs = Some x
            \<and> vquery T' ''MEASU:IMM:TYP?'' d = Some (rt, dev s')
            \<and> config_measure s' = \<lparr>Source = x, Type = rt\<rparr>"
    by simp_all
qed

text \<open>
  The claim as stated fails for the oscilloscope: the call writes \<open>'MINI'\<close>, then queries the
  device twice, and the cache holds the device's answer \<open>'MINIMUM'\<close>, not the value written.
\<close>

theorem osci_requery_counterexample:
  "sent (snd (re_config_measure demo_py (scope_device long_form) ''min'' 1
                (demo_osci ''FREQUENCY'')))
     = [''MEASU:IMM:TYP MINI'']
   \<and> asked (snd (re_config_measure demo_py (scope_device long_form) ''min'' 1
                  (demo_osci ''FREQUENCY'')))
     = [''MEASU:IMM:SOU?'', ''MEASU:IMM:TYP?'']
   \<and> Type (config_measure (snd (re_config_measure demo_py (scope_device long_form) ''min'' 1
                  (demo_osci ''FREQUENCY''))))
     = ''MINIMUM''"
  by (simp add: osci_eval)

theorem cache_refresh_policy_witness:
  "fst (re_config_output demo_py demo_afg 1
          (omitted\<lparr>waveform := Some ''squ'', duty_cycle := Some 75\<rparr>) demo_gen) = Inr ()
   \<and> asked (snd (re_config_output demo_py demo_afg 1
          (omitted\<lparr>waveform := Some ''squ'', duty_cycle := Some 75\<rparr>) demo_gen)) = []
   \<and> cached (snd (re_config_output demo_py demo_afg 1
          (omitted\<lparr>waveform := Some ''squ'', duty_cycle := Some 75\<rparr>) demo_gen)) 1 ''Waveform''
       = Some (PStr ''PULS'')
   \<and> cached (snd (re_config_output demo_py demo_afg 1
          (omitted\<lparr>waveform := Some ''squ'', duty_cycle := Some 75\<rparr>) demo_gen)) 1 ''Duty Cycle''
       = Some (PNum 75)
   \<and> fst (re_config_measure demo_py (scope_device id) ''min'' 2 (demo_osci ''FREQ'')) = Inr ()
   \<and> asked (snd (re_config_measure demo_py (scope_device id) ''min'' 2 (demo_osci ''FREQ'')))
       = [''MEASU:IMM:SOU?'', ''MEASU:IMM:TYP?'']"
proof -
  define a where "a = omitted\<lparr>waveform := Some ''squ'', duty_cycle := Some 75\<rparr>"
  define cg where "cg = re_config_output demo_py demo_afg 1 a demo_gen"
  define co where "co = re_config_measure demo_py (scope_device id) ''min'' 2 (demo_osci ''FREQ'')"
  have g1: "fst cg = Inr ()" unfolding cg_def a_def by (simp add: gen_eval)
  have g3: "cached (snd cg) 1 ''Waveform'' = Some (PStr ''PULS'')"
    unfolding cg_def a_def by (simp add: gen_eval)
  have g4: "cached (snd cg) 1 ''Duty Cycle'' = Some (PNum 75)"
    unfolding cg_def a_def by (simp add: gen_eval)
  have o1: "fst co = Inr ()" unfolding co_def by (simp add: osci_eval)
  from g1 have rg: "re_config_output demo_py demo_afg 1 a demo_gen = (Inr (), snd cg)"
    unfolding cg_def by (metis prod.collapse)
  from o1 have ro: "re_config_measure demo_py (scope_device id) ''min'' 2 (demo_osci ''FREQ'')
      = (Inr (), snd co)"
    unfolding co_def by (metis prod.collapse)
  note t = cache_refresh_policy[of demo_py demo_afg 1 a demo_gen "Inr ()" "snd cg" "scope_device id"
      "''min''" 2 "demo_osci ''FREQ''" "snd co"]
  from t rg have "asked (snd cg) = asked demo_gen" by blast
  then have g2: "asked (snd cg) = []" by (simp add: demo_gen_def)
  from t ro have "asked (snd co) = asked (demo_osci ''FREQ'') @ [''MEASU:IMM:SOU?'', ''MEASU:IMM:TYP?'']"
    by blast
  then have o2: "asked (snd co) = [''MEASU:IMM:SOU?'', ''MEASU:IMM:TYP?'']"
    by (simp add: demo_osci_def)
  from g1 g2 g3 g4 o1 o2 show ?thesis unfolding cg_def co_def a_def by blast
qed






end
